theory Spec2Isabelle
  imports Main "HOL-Library.AList" "HOL-Library.Multiset"
begin

section \<open>Go values used by exclude.go\<close>

text \<open>
  \<^verbatim>\<open>type Exclude map[string]string\<close>.  A Go map value is either \<^verbatim>\<open>nil\<close> or a table of
  entries with pairwise different keys.  It is modelled as an optional association list:
  \<open>None\<close> is the nil map, \<open>Some kvs\<close> a map holding the entries \<open>kvs\<close>.  The order of
  \<open>kvs\<close> is the order in which a \<^verbatim>\<open>range\<close> loop visits the entries; Go leaves that order
  unspecified, so properties that must hold for every run are stated for every
  rearrangement of the list.
\<close>

type_synonym gomap = "(string \<times> string) list option"

type_synonym Exclude = gomap

text \<open>The entries a \<^verbatim>\<open>range\<close> loop visits: none for the nil map.\<close>

fun entries :: "gomap \<Rightarrow> (string \<times> string) list" where
  "entries None = []"
| "entries (Some kvs) = kvs"

definition keys :: "gomap \<Rightarrow> string list" where
  "keys m = map fst (entries m)"

text \<open>\<^verbatim>\<open>m[k]\<close>: the value stored under \<open>k\<close>, the empty string when there is none.\<close>

definition index :: "gomap \<Rightarrow> string \<Rightarrow> string" where
  "index m k = (case map_of (entries m) k of Some v \<Rightarrow> v | None \<Rightarrow> [])"

text \<open>
  The functions of the Go standard library that exclude.go calls.  Errors are modelled by
  their text.
  \<^item> \<open>json_Unmarshal b\<close>: \<^verbatim>\<open>json.Unmarshal(b, &m)\<close> for a fresh \<^verbatim>\<open>var m map[string]string\<close>:
    the error, or the value of \<^verbatim>\<open>m\<close> afterwards;
  \<^item> \<open>filepath_Glob p\<close>: the error result of \<^verbatim>\<open>filepath.Glob(p)\<close> (the matches are
    discarded by the caller), \<open>None\<close> for a nil error;
  \<^item> \<open>filepath_Abs p\<close>: \<^verbatim>\<open>filepath.Abs(p)\<close>;
  \<^item> \<open>filepath_Match p name\<close>: \<^verbatim>\<open>filepath.Match(p, name)\<close>.
\<close>

record lib =
  json_Unmarshal :: "string \<Rightarrow> string + gomap"
  filepath_Glob :: "string \<Rightarrow> string option"
  filepath_Abs :: "string \<Rightarrow> string + string"
  filepath_Match :: "string \<Rightarrow> string \<Rightarrow> string + bool"

section \<open>UnmarshalJSON\<close>

text \<open>
  The errors \<^verbatim>\<open>UnmarshalJSON\<close> returns:
  \<^item> \<open>MalformedConfig err\<close>: the error of \<^verbatim>\<open>json.Unmarshal\<close>, returned as it is;
  \<^item> \<open>InvalidPattern msg\<close>: \<^verbatim>\<open>fmt.Errorf("invalid pattern: pattern=%s err=%s", pattern, err)\<close>,
    \<open>msg\<close> being the formatted text;
  \<^item> \<open>PathResolutionError pattern err\<close>:
    \<^verbatim>\<open>fmt.Errorf("unable to get absolute pattern: pattern=%s err=%err", pattern, err)\<close>.
\<close>

datatype error =
    MalformedConfig string
  | InvalidPattern string
  | PathResolutionError string string

definition invalid_pattern_msg :: "string \<Rightarrow> string \<Rightarrow> string" where
  "invalid_pattern_msg pattern err = ''invalid pattern: pattern='' @ pattern @ '' err='' @ err"

text \<open>
  The loop \<^verbatim>\<open>for pattern := range m\<close> of lines 43 to 52, over the keys still to visit.
  \<open>e\<close> is the content of \<^verbatim>\<open>*e\<close>, which the loop updates in place: on an error the
  function returns with whatever \<^verbatim>\<open>*e\<close> holds at that moment.
\<close>

fun load_loop :: "lib \<Rightarrow> gomap \<Rightarrow> string list \<Rightarrow> (string \<times> string) list
    \<Rightarrow> error option \<times> (string \<times> string) list" where
  "load_loop L m [] e = (None, e)"
| "load_loop L m (pattern # rest) e =
     (case filepath_Glob L pattern of
        Some err \<Rightarrow> (Some (InvalidPattern (invalid_pattern_msg pattern err)), e)
      | None \<Rightarrow>
          (case filepath_Abs L pattern of
             Inl err \<Rightarrow> (Some (PathResolutionError pattern err), e)
           | Inr absPattern \<Rightarrow>
               load_loop L m rest (AList.update absPattern (index m pattern) e)))"

text \<open>
  \<^verbatim>\<open>func (e *Exclude) UnmarshalJSON(b []byte) error\<close>: the returned error (\<open>None\<close> for
  nil) and the value of \<^verbatim>\<open>*e\<close> afterwards.  The receiver pointer is taken to be non-nil.
\<close>

definition UnmarshalJSON :: "lib \<Rightarrow> string \<Rightarrow> Exclude \<Rightarrow> error option \<times> Exclude" where
  "UnmarshalJSON L b e =
     (case json_Unmarshal L b of
        Inl err \<Rightarrow> (Some (MalformedConfig err), e)
      | Inr m \<Rightarrow>
          (case load_loop L m (keys m) [] of (r, e') \<Rightarrow> (r, Some e')))"

section \<open>Excluded\<close>

text \<open>A call either returns a value or panics.\<close>

datatype 'a outcome = Panic string | Return 'a

fun Excluded_loop :: "lib \<Rightarrow> string list \<Rightarrow> string \<Rightarrow> bool outcome" where
  "Excluded_loop L [] path = Return False"
| "Excluded_loop L (pattern # rest) path =
     (case filepath_Match L pattern path of
        Inl err \<Rightarrow> Panic ''Uncaught bad pattern''
      | Inr matched \<Rightarrow> if matched then Return True else Excluded_loop L rest path)"

text \<open>\<^verbatim>\<open>func (e *Exclude) Excluded(path string) bool\<close>, the receiver pointer non-nil.\<close>

definition Excluded :: "lib \<Rightarrow> Exclude \<Rightarrow> string \<Rightarrow> bool outcome" where
  "Excluded L e path = Excluded_loop L (keys e) path"

section \<open>The standard library\<close>

text \<open>
  The functions of the Go standard library behind \<open>lib\<close>, for a Unix build (the path
  separator is the slash and the backslash escapes in patterns), as of Go 1.16 and later.
  They are not part of exclude.go; the general properties below hold for any \<open>lib\<close>, and this model
  serves to run exclude.go on concrete inputs and to say which inputs the library rejects.  A Go string is a sequence of bytes
  (\<open>char\<close>), a rune a natural number.
\<close>

subsection \<open>path/filepath: Match\<close>

text \<open>
  \<^verbatim>\<open>Match(pattern, name)\<close> cuts the pattern into chunks at the stars that stand outside
  brackets (\<^verbatim>\<open>scanChunk\<close>) and matches chunk after chunk (\<^verbatim>\<open>matchChunk\<close>): at the current
  position of the name and, for a chunk that follows a star, at the later positions up to
  the next separator.  A chunk is read to its end even after the match has failed, so a
  malformed chunk that is reached yields \<^verbatim>\<open>ErrBadPattern\<close>; the chunks after a chunk that
  could not be matched are not read.
\<close>

definition Separator :: char where "Separator = CHR ''/''"
definition backslash :: char where "backslash = CHR 0x5C"
definition ErrBadPattern :: string where "ErrBadPattern = ''syntax error in pattern''"
definition RuneError :: nat where "RuneError = 0xFFFD"

definition byte :: "char \<Rightarrow> nat" where "byte c = of_char c"

definition between :: "nat \<Rightarrow> nat \<Rightarrow> char \<Rightarrow> bool" where
  "between lo hi c = (lo \<le> byte c \<and> byte c \<le> hi)"

text \<open>
  \<^verbatim>\<open>utf8.DecodeRuneInString\<close>: the first UTF-8 encoded rune of the string and its width in
  bytes; \<open>(RuneError, 0)\<close> for the empty string and \<open>(RuneError, 1)\<close> for an invalid
  encoding.
\<close>

fun DecodeRuneInString :: "string \<Rightarrow> nat \<times> nat" where
  "DecodeRuneInString [] = (RuneError, 0)"
| "DecodeRuneInString (c0 # cs) =
     (let b0 = byte c0 in
      if b0 < 0x80 then (b0, 1)
      else if b0 < 0xC2 \<or> 0xF4 < b0 then (RuneError, 1)
      else if b0 < 0xE0 then
        (case cs of
           c1 # _ \<Rightarrow>
             if between 0x80 0xBF c1 then ((b0 mod 0x20) * 0x40 + byte c1 mod 0x40, 2)
             else (RuneError, 1)
         | _ \<Rightarrow> (RuneError, 1))
      else if b0 < 0xF0 then
        (case cs of
           c1 # c2 # _ \<Rightarrow>
             if between (if b0 = 0xE0 then 0xA0 else 0x80) (if b0 = 0xED then 0x9F else 0xBF) c1
                \<and> between 0x80 0xBF c2
             then ((b0 mod 0x10) * 0x1000 + (byte c1 mod 0x40) * 0x40 + byte c2 mod 0x40, 3)
             else (RuneError, 1)
         | _ \<Rightarrow> (RuneError, 1))
      else
        (case cs of
           c1 # c2 # c3 # _ \<Rightarrow>
             if between (if b0 = 0xF0 then 0x90 else 0x80) (if b0 = 0xF4 then 0x8F else 0xBF) c1
                \<and> between 0x80 0xBF c2 \<and> between 0x80 0xBF c3
             then ((b0 mod 0x08) * 0x40000 + (byte c1 mod 0x40) * 0x1000
                    + (byte c2 mod 0x40) * 0x40 + byte c3 mod 0x40, 4)
             else (RuneError, 1)
         | _ \<Rightarrow> (RuneError, 1)))"

text \<open>
  \<^verbatim>\<open>scanChunk\<close>: the leading stars are dropped (\<open>star\<close> tells whether there was one), then
  the chunk runs up to the next star that is not inside brackets; a backslash takes the
  next byte with it.
\<close>

fun skip_stars :: "string \<Rightarrow> bool \<Rightarrow> bool \<times> string" where
  "skip_stars [] star = (star, [])"
| "skip_stars (c # cs) star = (if c = CHR ''*'' then skip_stars cs True else (star, c # cs))"

fun scan :: "bool \<Rightarrow> string \<Rightarrow> string \<times> string" where
  "scan inrange [] = ([], [])"
| "scan inrange (c # cs) =
     (if c = backslash then
        (case cs of
           [] \<Rightarrow> ([c], [])
         | d # ds \<Rightarrow> (case scan inrange ds of (chunk, rest) \<Rightarrow> (c # d # chunk, rest)))
      else if c = CHR ''['' then (case scan True cs of (chunk, rest) \<Rightarrow> (c # chunk, rest))
      else if c = CHR '']'' then (case scan False cs of (chunk, rest) \<Rightarrow> (c # chunk, rest))
      else if c = CHR ''*'' \<and> \<not> inrange then ([], c # cs)
      else (case scan inrange cs of (chunk, rest) \<Rightarrow> (c # chunk, rest)))"

definition scanChunk :: "string \<Rightarrow> bool \<times> string \<times> string" where
  "scanChunk pattern = (case skip_stars pattern False of (star, p) \<Rightarrow> (star, scan False p))"

text \<open>
  \<^verbatim>\<open>getEsc\<close>: one, possibly escaped, character of a character class, and the rest of the
  chunk.  It is an error when the chunk is empty, starts with \<^verbatim>\<open>-\<close> or \<^verbatim>\<open>]\<close>, ends after the
  backslash, holds invalid UTF-8, or ends with this character (the class is not closed).
\<close>

fun getEsc :: "string \<Rightarrow> string + (nat \<times> string)" where
  "getEsc [] = Inl ErrBadPattern"
| "getEsc (c # cs) =
     (if c = CHR ''-'' \<or> c = CHR '']'' then Inl ErrBadPattern
      else if c = backslash \<and> cs = [] then Inl ErrBadPattern
      else
        (let chunk = (if c = backslash then cs else c # cs);
             (r, n) = DecodeRuneInString chunk;
             nchunk = drop n chunk
         in if r = RuneError \<and> n = 1 then Inl ErrBadPattern
            else if nchunk = [] then Inl ErrBadPattern
            else Inr (r, nchunk)))"

lemma DecodeRuneInString_size: "s \<noteq> [] \<Longrightarrow> 0 < snd (DecodeRuneInString s)"
  by (cases s) (auto simp: Let_def split: list.splits)

lemma getEsc_shorter: "getEsc chunk = Inr (r, nchunk) \<Longrightarrow> length nchunk < length chunk"
proof (cases chunk)
  case Nil
  assume "getEsc chunk = Inr (r, nchunk)"
  with Nil show ?thesis by simp
next
  case (Cons c cs)
  assume a: "getEsc chunk = Inr (r, nchunk)"
  let ?ch = "if c = backslash then cs else c # cs"
  from a Cons have ne: "?ch \<noteq> []" by (auto split: if_splits)
  from a Cons have "nchunk = drop (snd (DecodeRuneInString ?ch)) ?ch"
    by (auto simp: Let_def split: if_splits prod.splits)
  moreover have "0 < snd (DecodeRuneInString ?ch)" using ne by (rule DecodeRuneInString_size)
  ultimately have "length nchunk < length ?ch" using ne by (cases ?ch) auto
  also have "\<dots> \<le> length chunk" using Cons by simp
  finally show ?thesis .
qed

text \<open>
  The loop "parse all ranges" of \<^verbatim>\<open>matchChunk\<close>, for the rune \<open>r\<close> of the name: it ends at
  a \<^verbatim>\<open>]\<close> that follows at least one range and returns whether some range holds \<open>r\<close>.
\<close>

function ranges :: "nat \<Rightarrow> bool \<Rightarrow> nat \<Rightarrow> string \<Rightarrow> string + (bool \<times> string)" where
  "ranges r match nrange chunk =
     (if chunk \<noteq> [] \<and> hd chunk = CHR '']'' \<and> 0 < nrange then Inr (match, tl chunk)
      else
        (case getEsc chunk of
           Inl err \<Rightarrow> Inl err
         | Inr (lo, chunk1) \<Rightarrow>
             if hd chunk1 = CHR ''-'' then
               (case getEsc (tl chunk1) of
                  Inl err \<Rightarrow> Inl err
                | Inr (hi, chunk2) \<Rightarrow>
                    ranges r (match \<or> (lo \<le> r \<and> r \<le> hi)) (nrange + 1) chunk2)
             else ranges r (match \<or> (lo \<le> r \<and> r \<le> lo)) (nrange + 1) chunk1))"
  by pat_completeness auto
termination
proof (relation "measure (\<lambda>(r, match, nrange, chunk). length chunk)", goal_cases)
  case 1
  show ?case by simp
next
  case (2 r match nrange chunk x2 lo chunk1 x2a hi chunk2)
  then have "length chunk1 < length chunk" "length chunk2 < length (tl chunk1)"
    by (auto dest: getEsc_shorter)
  then show ?case by simp
next
  case (3 r match nrange chunk x2 lo chunk1)
  then show ?case by (auto dest: getEsc_shorter)
qed


declare ranges.simps [simp del]

lemma ranges_shorter:
  "ranges r match nrange chunk = Inr (m, chunk') \<Longrightarrow> length chunk' < length chunk"
proof (induction r match nrange chunk rule: ranges.induct)
  case (1 r match nrange chunk)
  show ?case
  proof (cases "chunk \<noteq> [] \<and> hd chunk = CHR '']'' \<and> 0 < nrange")
    case True
    with "1.prems" show ?thesis by (cases chunk) (auto simp: ranges.simps)
  next
    case False
    with "1.prems" obtain lo chunk1 where g1: "getEsc chunk = Inr (lo, chunk1)"
      by (subst (asm) ranges.simps) (auto split: sum.splits)
    have l1: "length chunk1 < length chunk" using g1 by (rule getEsc_shorter)
    show ?thesis
    proof (cases "hd chunk1 = CHR ''-''")
      case True
      with "1.prems" False g1 obtain hi chunk2 where g2: "getEsc (tl chunk1) = Inr (hi, chunk2)"
        by (subst (asm) ranges.simps) (auto split: sum.splits)
      have l2: "length chunk2 < length (tl chunk1)" using g2 by (rule getEsc_shorter)
      from "1.prems" False g1 True g2
      have "ranges r (match \<or> (lo \<le> r \<and> r \<le> hi)) (nrange + 1) chunk2 = Inr (m, chunk')"
        by (subst (asm) ranges.simps) simp
      from "1.IH"(1)[OF False g1 refl True g2 refl this] l1 l2 show ?thesis by simp
    next
      case F2: False
      from "1.prems" False g1 F2
      have "ranges r (match \<or> (lo \<le> r \<and> r \<le> lo)) (nrange + 1) chunk1 = Inr (m, chunk')"
        by (subst (asm) ranges.simps) simp
      from "1.IH"(2)[OF False g1 refl F2 this] l1 show ?thesis by simp
    qed
  qed
qed

text \<open>
  \<^verbatim>\<open>matchChunk(chunk, s)\<close>: the loop over the chunk with its flag \<open>failed\<close>, which is set
  when \<open>s\<close> is exhausted or a character does not match; from then on \<open>s\<close> is no longer read
  and only the syntax of the chunk is checked.  The cases are those of the source: a
  bracket opens a character class (possibly negated by \<^verbatim>\<open>^\<close>), a question mark takes any
  rune but the separator, a backslash makes the next byte literal, any other byte stands
  for itself.  The result is the error, or the rest of \<open>s\<close> and whether the chunk matched.
\<close>

function matchChunk_loop :: "bool \<Rightarrow> string \<Rightarrow> string \<Rightarrow> string + (string \<times> bool)" where
  "matchChunk_loop failed [] s = (if failed then Inr ([], False) else Inr (s, True))"
| "matchChunk_loop failed0 (c # chunk) s =
     (let failed = (failed0 \<or> s = []) in
      if c = CHR ''['' then
        (let (r, s1) = (if \<not> failed then (fst (DecodeRuneInString s), drop (snd (DecodeRuneInString s)) s)
                        else (0, s));
             negated = (chunk \<noteq> [] \<and> hd chunk = CHR ''^'');
             chunk1 = (if negated then tl chunk else chunk)
         in case ranges r False 0 chunk1 of
              Inl err \<Rightarrow> Inl err
            | Inr (match, chunk2) \<Rightarrow> matchChunk_loop (failed \<or> match = negated) chunk2 s1)
      else if c = CHR ''?'' then
        (if \<not> failed
         then matchChunk_loop (hd s = Separator) chunk (drop (snd (DecodeRuneInString s)) s)
         else matchChunk_loop failed chunk s)
      else if c = backslash \<and> chunk = [] then Inl ErrBadPattern
      else
        (let lit = (if c = backslash then chunk else c # chunk) in
         if \<not> failed then matchChunk_loop (hd lit \<noteq> hd s) (tl lit) (tl s)
         else matchChunk_loop failed (tl lit) s))"
  by pat_completeness auto
termination
  apply (relation "measure (\<lambda>(failed, chunk, s). length chunk)")
      apply simp
     apply (auto dest!: ranges_shorter split: if_splits)
  done

definition matchChunk :: "string \<Rightarrow> string \<Rightarrow> string + (string \<times> bool)" where
  "matchChunk chunk s = matchChunk_loop False chunk s"


lemma skip_stars_length: "skip_stars p star = (star', p') \<Longrightarrow> length p' \<le> length p"
  by (induction p star rule: skip_stars.induct) (auto split: if_splits)

lemma skip_stars_shorter:
  "skip_stars (c # cs) star = (star', p') \<Longrightarrow> c = CHR ''*'' \<Longrightarrow> length p' \<le> length cs"
  by (auto dest: skip_stars_length)

lemma scan_length: "scan inrange p = (chunk, rest) \<Longrightarrow> length rest \<le> length p"
proof (induction inrange p arbitrary: chunk rest rule: scan.induct)
  case (1 inrange)
  then show ?case by simp
next
  case (2 inrange c cs)
  then show ?case
    by (fastforce split: if_splits list.splits prod.splits)
qed

lemma scan_shorter:
  "scan inrange (c # cs) = (chunk, rest) \<Longrightarrow> c \<noteq> CHR ''*'' \<Longrightarrow> length rest \<le> length cs"
  by (fastforce split: if_splits prod.splits list.splits dest: scan_length)

lemma scanChunk_shorter:
  assumes "scanChunk (c # cs) = (star, chunk, rest)"
  shows "length rest \<le> length cs"
proof -
  obtain star' p' where sk: "skip_stars (c # cs) False = (star', p')"
    by (cases "skip_stars (c # cs) False")
  with assms have sc: "scan False p' = (chunk, rest)" by (simp add: scanChunk_def)
  show ?thesis
  proof (cases "c = CHR ''*''")
    case True
    from skip_stars_shorter[OF sk True] scan_length[OF sc] show ?thesis by simp
  next
    case False
    with sk have "p' = c # cs" by simp
    with sc have "scan False (c # cs) = (chunk, rest)" by simp
    from scan_shorter[OF this False] show ?thesis .
  qed
qed

lemma scanChunk_shorter':
  "(star, chunk, rest) = scanChunk (c # cs) \<Longrightarrow> length rest < Suc (length cs)"
  using scanChunk_shorter[of c cs star chunk rest] by simp

datatype skipped = Found string | Failed string | NotFound

text \<open>
  The loop "Look for match skipping i+1 bytes" of \<^verbatim>\<open>Match\<close>, which tries the chunk after
  each byte of the name up to the first separator; \<open>final\<close> says that the remaining pattern
  is empty, in which case a match must use up the name.
\<close>

fun skip_loop :: "string \<Rightarrow> bool \<Rightarrow> string \<Rightarrow> skipped" where
  "skip_loop chunk final [] = NotFound"
| "skip_loop chunk final (c # name) =
     (if c = Separator then NotFound
      else
        (case matchChunk chunk name of
           Inl err \<Rightarrow> Failed err
         | Inr (t, ok) \<Rightarrow>
             if ok then (if final \<and> t \<noteq> [] then skip_loop chunk final name else Found t)
             else skip_loop chunk final name))"

text \<open>
  \<^verbatim>\<open>Match(pattern, name)\<close>.  A star with nothing after it matches the rest of the name
  unless that holds a separator.  When a chunk cannot be matched the result is false with
  no error, and the chunks after it are not looked at.
\<close>

function Match :: "string \<Rightarrow> string \<Rightarrow> string + bool" where
  "Match [] name = Inr (name = [])"
| "Match (c # cs) name =
     (case scanChunk (c # cs) of
        (star, chunk, pattern) \<Rightarrow>
          if star \<and> chunk = [] then Inr (Separator \<notin> set name)
          else
            (case matchChunk chunk name of
               Inl err \<Rightarrow> Inl err
             | Inr (t, ok) \<Rightarrow>
                 if ok \<and> (t = [] \<or> pattern \<noteq> []) then Match pattern t
                 else if star then
                   (case skip_loop chunk (pattern = []) name of
                      Found t' \<Rightarrow> Match pattern t'
                    | Failed err \<Rightarrow> Inl err
                    | NotFound \<Rightarrow> Inr False)
                 else Inr False))"
  by pat_completeness auto
termination
  by (relation "measure (\<lambda>(pattern, name). length pattern)") (auto dest: scanChunk_shorter')

subsection \<open>path/filepath: Clean, Join and Abs\<close>

text \<open>
  \<^verbatim>\<open>Clean(path)\<close> reads the path element by element and writes the cleaned path into a
  buffer \<open>out\<close>: empty elements and \<^verbatim>\<open>.\<close> are skipped, \<^verbatim>\<open>..\<close> removes the last element
  written (but nothing at or before the index \<open>dotdot\<close>: the leading slash, or the \<^verbatim>\<open>..\<close>
  elements a relative path starts with), any other element is copied after a separator.
  \<open>backtrack\<close> is the inner loop of the \<^verbatim>\<open>..\<close> case, which moves the write index \<open>w\<close> back
  to the last separator.
\<close>

function backtrack :: "string \<Rightarrow> nat \<Rightarrow> nat \<Rightarrow> nat" where
  "backtrack out dotdot w =
     (if dotdot < w \<and> out ! w \<noteq> Separator then backtrack out dotdot (w - 1) else w)"
  by pat_completeness auto
termination
  by (relation "measure (\<lambda>(out, dotdot, w). w)") auto

declare backtrack.simps [simp del]

function clean_loop :: "bool \<Rightarrow> string \<Rightarrow> nat \<Rightarrow> string \<Rightarrow> string" where
  "clean_loop rooted out dotdot [] = out"
| "clean_loop rooted out dotdot (c # path) =
     (if c = Separator then clean_loop rooted out dotdot path
      else if c = CHR ''.'' \<and> (path = [] \<or> hd path = Separator) then
        clean_loop rooted out dotdot path
      else if c = CHR ''.'' \<and> hd path = CHR ''.''
              \<and> (tl path = [] \<or> hd (tl path) = Separator) then
        (if dotdot < length out then
           clean_loop rooted (take (backtrack out dotdot (length out - 1)) out) dotdot (tl path)
         else if \<not> rooted then
           (let out' = (if 0 < length out then out @ [Separator] else out) @ ''..''
            in clean_loop rooted out' (length out') (tl path))
         else clean_loop rooted out dotdot (tl path))
      else
        (let out' = (if rooted \<and> length out \<noteq> 1 \<or> \<not> rooted \<and> length out \<noteq> 0
                     then out @ [Separator] else out)
         in clean_loop rooted (out' @ takeWhile (\<lambda>x. x \<noteq> Separator) (c # path)) dotdot
              (dropWhile (\<lambda>x. x \<noteq> Separator) (c # path))))"
  by pat_completeness auto
termination
proof (relation "measure (\<lambda>(rooted, out, dotdot, path). length path)", goal_cases)
  case (7 rooted out dotdot c path x)
  have "length (dropWhile (\<lambda>x. x \<noteq> Separator) path) \<le> length path"
    by (rule length_dropWhile_le)
  with 7 show ?case by simp
qed auto

text \<open>\<^verbatim>\<open>Clean\<close>: the empty path and an empty result become \<^verbatim>\<open>.\<close> (there is no volume name on Unix).\<close>

definition Clean :: "string \<Rightarrow> string" where
  "Clean path =
     (if path = [] then ''.''
      else
        (let rooted = (hd path = Separator);
             out = (if rooted then clean_loop rooted [Separator] 1 (tl path)
                    else clean_loop rooted [] 0 path)
         in if out = [] then ''.'' else out))"

definition IsAbs :: "string \<Rightarrow> bool" where
  "IsAbs path = (path \<noteq> [] \<and> hd path = Separator)"

text \<open>
  \<^verbatim>\<open>Join(elem...)\<close>: the elements from the first non-empty one on, joined by the separator
  (\<open>strings_Join\<close>) and cleaned.
\<close>

fun strings_Join :: "string list \<Rightarrow> string" where
  "strings_Join [] = []"
| "strings_Join [e] = e"
| "strings_Join (e # es) = e @ [Separator] @ strings_Join es"

fun Join :: "string list \<Rightarrow> string" where
  "Join [] = []"
| "Join (e # elem) = (if e \<noteq> [] then Clean (strings_Join (e # elem)) else Join elem)"

text \<open>
  What the library reads of the operating system: the result of \<^verbatim>\<open>os.Getwd\<close> (an error
  or the working directory), whether \<^verbatim>\<open>os.Lstat\<close> finds a path, and the sorted names of
  the entries of a directory (\<open>None\<close> when it cannot be listed).
\<close>

record os =
  Getwd :: "string + string"
  Lstat_ok :: "string \<Rightarrow> bool"
  dir_names :: "string \<Rightarrow> string list option"

text \<open>
  \<^verbatim>\<open>Abs(path)\<close>: the cleaned path when it is absolute, else the working directory joined
  with it; the error of \<^verbatim>\<open>os.Getwd\<close> when that fails.
\<close>

definition Abs :: "os \<Rightarrow> string \<Rightarrow> string + string" where
  "Abs sys path =
     (if IsAbs path then Inr (Clean path)
      else
        (case Getwd sys of
           Inl err \<Rightarrow> Inl err
         | Inr wd \<Rightarrow> Inr (Join [wd, path])))"

subsection \<open>path/filepath: Glob\<close>

text \<open>
  \<^verbatim>\<open>Glob(pattern)\<close> is \<^verbatim>\<open>globWithLimit(pattern, 0)\<close>.  It first calls
  \<^verbatim>\<open>Match(pattern, "")\<close> and returns its error, if any.  A pattern without metacharacter (\<^verbatim>\<open>hasMeta\<close>) is
  looked up with \<^verbatim>\<open>os.Lstat\<close>.  Otherwise the pattern is split at its last separator into
  a directory part and a file part; the directory part is globbed recursively when it has
  metacharacters, and the names of each directory found are matched against the file part
  (\<^verbatim>\<open>glob\<close>).  Errors of the file system are ignored; the only error is
  \<^verbatim>\<open>ErrBadPattern\<close>.
\<close>

definition meta :: "char \<Rightarrow> bool" where
  "meta c = (c = CHR ''*'' \<or> c = CHR ''?'' \<or> c = CHR ''['' \<or> c = backslash)"

definition hasMeta :: "string \<Rightarrow> bool" where
  "hasMeta path = list_ex meta path"

definition Split :: "string \<Rightarrow> string \<times> string" where
  "Split path =
     (let file = rev (takeWhile (\<lambda>c. c \<noteq> Separator) (rev path))
      in (take (length path - length file) path, file))"

definition cleanGlobPath :: "string \<Rightarrow> string" where
  "cleanGlobPath path =
     (if path = [] then ''.'' else if path = [Separator] then path else butlast path)"

fun glob_names :: "string \<Rightarrow> string \<Rightarrow> string list \<Rightarrow> string list \<Rightarrow> string list \<times> string option" where
  "glob_names dir pattern [] m = (m, None)"
| "glob_names dir pattern (n # names) m =
     (case Match pattern n of
        Inl err \<Rightarrow> (m, Some err)
      | Inr matched \<Rightarrow> glob_names dir pattern names (if matched then m @ [Join [dir, n]] else m))"

definition glob :: "os \<Rightarrow> string \<Rightarrow> string \<Rightarrow> string list \<Rightarrow> string list \<times> string option" where
  "glob sys dir pattern matches =
     (case dir_names sys dir of
        None \<Rightarrow> (matches, None)
      | Some names \<Rightarrow> glob_names dir pattern names matches)"

fun glob_dirs :: "os \<Rightarrow> string \<Rightarrow> string list \<Rightarrow> string list \<Rightarrow> string list \<times> string option" where
  "glob_dirs sys file [] matches = (matches, None)"
| "glob_dirs sys file (d # m) matches =
     (case glob sys d file matches of
        (matches', Some err) \<Rightarrow> (matches', Some err)
      | (matches', None) \<Rightarrow> glob_dirs sys file m matches')"

lemma Split_dir_length: "length (fst (Split pattern)) \<le> length pattern"
  by (simp add: Split_def Let_def)

lemma cleanGlobPath_shorter:
  "hasMeta (cleanGlobPath dir) \<Longrightarrow> length (cleanGlobPath dir) < length dir"
  by (cases dir)
    (auto simp: cleanGlobPath_def hasMeta_def meta_def Separator_def backslash_def split: if_splits)

function globWithLimit :: "os \<Rightarrow> string \<Rightarrow> nat \<Rightarrow> string list \<times> string option" where
  "globWithLimit sys pattern depth =
     (if depth = 10000 then ([], Some ErrBadPattern)
      else
        (case Match pattern [] of
           Inl err \<Rightarrow> ([], Some err)
         | Inr _ \<Rightarrow>
             if \<not> hasMeta pattern then
               (if Lstat_ok sys pattern then ([pattern], None) else ([], None))
             else
               (let dir = cleanGlobPath (fst (Split pattern)); file = snd (Split pattern) in
                if \<not> hasMeta dir then glob sys dir file []
                else if dir = pattern then ([], Some ErrBadPattern)
                else
                  (case globWithLimit sys dir (depth + 1) of
                     (m, Some err) \<Rightarrow> ([], Some err)
                   | (m, None) \<Rightarrow> glob_dirs sys file m []))))"
  by pat_completeness auto
termination
proof (relation "measure (\<lambda>(sys, pattern, depth). length pattern)", goal_cases)
  case 1
  show ?case by simp
next
  case (2 sys pattern depth x2 dir fl)
  then have "length dir < length (fst (Split pattern))"
    by (auto dest: cleanGlobPath_shorter)
  with Split_dir_length[of pattern] show ?case by simp
qed

declare globWithLimit.simps [simp del]

definition Glob :: "os \<Rightarrow> string \<Rightarrow> string list \<times> string option" where
  "Glob sys pattern = globWithLimit sys pattern 0"

subsection \<open>encoding/json: Unmarshal into a map of strings\<close>

text \<open>
  \<^verbatim>\<open>json.Unmarshal(b, &m)\<close> for a variable \<open>m\<close> of type \<^verbatim>\<open>map[string]string\<close>.  The decoder
  first checks that the whole input is one JSON value (\<^verbatim>\<open>checkValid\<close>) and then stores
  the value.  The grammar is that of the scanner of encoding/json, written here as a
  recursive descent that also builds the value; a number is kept without its digits,
  which no string map can hold.
\<close>

datatype json = JNull | JBool bool | JNumber | JString string
  | JArray "json list" | JObject "(string \<times> json) list"

text \<open>The white space of JSON: space, tab, line feed and carriage return.\<close>

definition is_space :: "char \<Rightarrow> bool" where
  "is_space c = (c = CHR '' '' \<or> c = CHR 0x09 \<or> c = CHR 0x0A \<or> c = CHR 0x0D)"

definition skip_space :: "string \<Rightarrow> string" where
  "skip_space s = dropWhile is_space s"

text \<open>
  The rest of the input after one of the words \<^verbatim>\<open>true\<close>, \<^verbatim>\<open>false\<close>, \<^verbatim>\<open>null\<close>, whose first
  letter has been read.
\<close>

definition literal :: "string \<Rightarrow> string \<Rightarrow> string option" where
  "literal l s = (if take (length l) s = l then Some (drop (length l) s) else None)"

text \<open>
  A number: an optional minus sign, then a zero or a digit from one to nine followed by
  digits, then an optional fraction (a dot and at least one digit), then an optional
  exponent (\<^verbatim>\<open>e\<close> or \<^verbatim>\<open>E\<close>, an optional sign, at least one digit).  The result is the rest
  of the input, which the caller checks.
\<close>

definition is_digit :: "char \<Rightarrow> bool" where
  "is_digit c = (0x30 \<le> byte c \<and> byte c \<le> 0x39)"

definition digits :: "string \<Rightarrow> string" where
  "digits s = dropWhile is_digit s"

fun exponent :: "string \<Rightarrow> string option" where
  "exponent [] = Some []"
| "exponent (c # s) =
     (if c = CHR ''e'' \<or> c = CHR ''E'' then
        (case (case s of [] \<Rightarrow> [] | d # r \<Rightarrow> if d = CHR ''+'' \<or> d = CHR ''-'' then r else d # r) of
           [] \<Rightarrow> None
         | d # r \<Rightarrow> if is_digit d then Some (digits r) else None)
      else Some (c # s))"

fun fraction :: "string \<Rightarrow> string option" where
  "fraction [] = Some []"
| "fraction (c # s) =
     (if c = CHR ''.'' then
        (case s of
           [] \<Rightarrow> None
         | d # r \<Rightarrow> if is_digit d then exponent (digits r) else None)
      else exponent (c # s))"

definition number :: "string \<Rightarrow> string option" where
  "number s =
     (case (case s of [] \<Rightarrow> [] | c # r \<Rightarrow> if c = CHR ''-'' then r else c # r) of
        [] \<Rightarrow> None
      | c # r \<Rightarrow>
          if c = CHR ''0'' then fraction r
          else if is_digit c then fraction (digits r)
          else None)"

text \<open>
  A string.  \<^verbatim>\<open>getu4\<close> reads the four hexadecimal digits of an escape that starts with
  a backslash and the letter u, \<^verbatim>\<open>utf16.DecodeRune\<close> combines two surrogate halves (the
  second one missing when no such escape follows), and \<^verbatim>\<open>utf8.EncodeRune\<close> writes a rune
  as bytes.
\<close>

definition hex_digit :: "char \<Rightarrow> nat option" where
  "hex_digit c =
     (let b = byte c in
      if 0x30 \<le> b \<and> b \<le> 0x39 then Some (b - 0x30)
      else if 0x61 \<le> b \<and> b \<le> 0x66 then Some (b - 0x61 + 10)
      else if 0x41 \<le> b \<and> b \<le> 0x46 then Some (b - 0x41 + 10)
      else None)"

definition getu4 :: "string \<Rightarrow> nat option" where
  "getu4 s =
     (case s of
        b # u # h1 # h2 # h3 # h4 # _ \<Rightarrow>
          if b = backslash \<and> u = CHR ''u'' then
            (case (hex_digit h1, hex_digit h2, hex_digit h3, hex_digit h4) of
               (Some a, Some b, Some c, Some d) \<Rightarrow> Some (a * 0x1000 + b * 0x100 + c * 0x10 + d)
             | _ \<Rightarrow> None)
          else None
      | _ \<Rightarrow> None)"

definition IsSurrogate :: "nat \<Rightarrow> bool" where
  "IsSurrogate r = (0xD800 \<le> r \<and> r < 0xE000)"

definition utf16_DecodeRune :: "nat \<Rightarrow> nat option \<Rightarrow> nat" where
  "utf16_DecodeRune r1 r2 =
     (case r2 of
        Some r2' \<Rightarrow>
          if 0xD800 \<le> r1 \<and> r1 < 0xDC00 \<and> 0xDC00 \<le> r2' \<and> r2' < 0xE000
          then (r1 - 0xD800) * 0x400 + (r2' - 0xDC00) + 0x10000
          else RuneError
      | None \<Rightarrow> RuneError)"

definition EncodeRune :: "nat \<Rightarrow> string" where
  "EncodeRune r =
     (if r \<le> 0x7F then [char_of r]
      else if r \<le> 0x7FF then [char_of (0xC0 + r div 0x40), char_of (0x80 + r mod 0x40)]
      else if 0x10FFFF < r \<or> IsSurrogate r then [char_of (0xEF::nat), char_of (0xBF::nat), char_of (0xBD::nat)]
      else if r \<le> 0xFFFF then
        [char_of (0xE0 + r div 0x1000), char_of (0x80 + (r div 0x40) mod 0x40),
         char_of (0x80 + r mod 0x40)]
      else
        [char_of (0xF0 + r div 0x40000), char_of (0x80 + (r div 0x1000) mod 0x40),
         char_of (0x80 + (r div 0x40) mod 0x40), char_of (0x80 + r mod 0x40)])"

text \<open>The character that stands after a backslash, other than the letter u.\<close>

definition escaped :: "char \<Rightarrow> char option" where
  "escaped c =
     (if c = CHR 0x22 \<or> c = backslash \<or> c = CHR ''/'' then Some c
      else if c = CHR ''b'' then Some (CHR 0x08)
      else if c = CHR ''f'' then Some (CHR 0x0C)
      else if c = CHR ''n'' then Some (CHR 0x0A)
      else if c = CHR ''r'' then Some (CHR 0x0D)
      else if c = CHR ''t'' then Some (CHR 0x09)
      else None)"

definition prepend :: "string \<Rightarrow> (string \<times> string) option \<Rightarrow> (string \<times> string) option" where
  "prepend xs r = (case r of None \<Rightarrow> None | Some (ys, rest) \<Rightarrow> Some (xs @ ys, rest))"

text \<open>
  The body of a string after its opening quote, as \<^verbatim>\<open>unquote\<close> decodes it, and the rest
  of the input after the closing quote.  A control character is not allowed; a lone
  surrogate and a byte sequence that is not valid UTF-8 become the replacement rune.
\<close>

function string_body :: "string \<Rightarrow> (string \<times> string) option" where
  "string_body [] = None"
| "string_body (c # s) =
     (if c = CHR 0x22 then Some ([], s)
      else if c = backslash then
        (case s of
           [] \<Rightarrow> None
         | e # r \<Rightarrow>
             if e = CHR ''u'' then
               (case getu4 (c # s) of
                  None \<Rightarrow> None
                | Some rr \<Rightarrow>
                    if IsSurrogate rr \<and> utf16_DecodeRune rr (getu4 (drop 4 r)) \<noteq> RuneError
                    then prepend (EncodeRune (utf16_DecodeRune rr (getu4 (drop 4 r))))
                           (string_body (drop 10 r))
                    else prepend (EncodeRune (if IsSurrogate rr then RuneError else rr))
                           (string_body (drop 4 r)))
             else
               (case escaped e of
                  None \<Rightarrow> None
                | Some x \<Rightarrow> prepend [x] (string_body r)))
      else if byte c < 0x20 then None
      else if byte c < 0x80 then prepend [c] (string_body s)
      else prepend (EncodeRune (fst (DecodeRuneInString (c # s))))
             (string_body (drop (snd (DecodeRuneInString (c # s))) (c # s))))"
  by pat_completeness auto
termination
proof (relation "measure length", goal_cases)
  case (6 c s)
  have "0 < snd (DecodeRuneInString (c # s))" by (rule DecodeRuneInString_size) simp
  then show ?case by simp
qed auto


lemma prepend_Some: "prepend xs r = Some (ys, rest) \<Longrightarrow> \<exists>zs. r = Some (zs, rest)"
  by (auto simp: prepend_def split: option.splits)

lemma string_body_shorter: "string_body s = Some (x, r) \<Longrightarrow> length r < length s"
proof (induction s arbitrary: x r rule: string_body.induct)
  case 1
  then show ?case by simp
next
  case (2 c s)
  show ?case
  proof (cases "c = CHR 0x22")
    case True
    with "2.prems" show ?thesis by simp
  next
    case q: False
    show ?thesis
    proof (cases "c = backslash")
      case b: True
      from "2.prems" q b obtain e t where s: "s = e # t" by (cases s) auto
      show ?thesis
      proof (cases "e = CHR ''u''")
        case u: True
        from "2.prems" q b s u obtain rr where g: "getu4 (c # s) = Some rr"
          by (auto split: option.splits)
        show ?thesis
        proof (cases "IsSurrogate rr \<and> utf16_DecodeRune rr (getu4 (drop 4 t)) \<noteq> RuneError")
          case True
          with "2.prems" q b s u g obtain zs where "string_body (drop 10 t) = Some (zs, r)"
            by (auto dest!: prepend_Some)
          from "2.IH"(1)[OF q b s u g True this] s show ?thesis by simp
        next
          case False
          with "2.prems" q b s u g obtain zs where "string_body (drop 4 t) = Some (zs, r)"
            by (auto dest!: prepend_Some)
          from "2.IH"(2)[OF q b s u g False this] s show ?thesis by simp
        qed
      next
        case nu: False
        from "2.prems" q b s nu obtain y where e: "escaped e = Some y"
          by (auto split: option.splits)
        with "2.prems" q b s nu obtain zs where "string_body t = Some (zs, r)"
          by (auto dest!: prepend_Some)
        from "2.IH"(3)[OF q b s nu e this] s show ?thesis by simp
      qed
    next
      case nb: False
      from "2.prems" q nb have c20: "\<not> byte c < 0x20" by (auto split: if_splits)
      show ?thesis
      proof (cases "byte c < 0x80")
        case True
        with "2.prems" q nb c20 obtain zs where "string_body s = Some (zs, r)"
          by (auto dest!: prepend_Some)
        from "2.IH"(4)[OF q nb c20 True this] show ?thesis by simp
      next
        case False
        with "2.prems" q nb c20 obtain zs where
          "string_body (drop (snd (DecodeRuneInString (c # s))) (c # s)) = Some (zs, r)"
          by (auto dest!: prepend_Some)
        from "2.IH"(5)[OF q nb c20 False this] show ?thesis by simp
      qed
    qed
  qed
qed

lemma skip_space_length: "length (skip_space s) \<le> length s"
  by (simp add: skip_space_def length_dropWhile_le)

lemma skip_space_Cons: "skip_space s = c # r \<Longrightarrow> length r < length s"
  using skip_space_length[of s] by simp

definition with_rest :: "('a \<Rightarrow> 'b) \<Rightarrow> ('a \<times> string) option \<Rightarrow> ('b \<times> string) option" where
  "with_rest f r = (case r of None \<Rightarrow> None | Some (x, rest) \<Rightarrow> Some (f x, rest))"

text \<open>
  A value, the elements of an array after its opening bracket, and the members of an
  object after its opening brace.  \<open>d\<close> is the number of arrays and objects that are open;
  the scanner refuses to open more than \<^verbatim>\<open>maxNestingDepth\<close>.  The comparisons of lengths
  serve the termination proof; they hold whenever they are reached, a value being never
  empty (\<open>json_value_shorter\<close>, \<open>elements_unfold\<close> and \<open>members_unfold\<close> below).
\<close>

definition maxNestingDepth :: nat where
  "maxNestingDepth = 10000"

function json_value :: "nat \<Rightarrow> string \<Rightarrow> (json \<times> string) option"
  and elements :: "nat \<Rightarrow> string \<Rightarrow> (json list \<times> string) option"
  and members :: "nat \<Rightarrow> string \<Rightarrow> ((string \<times> json) list \<times> string) option" where
  "json_value d s =
     (case skip_space s of
        [] \<Rightarrow> None
      | c # r \<Rightarrow>
          if c = CHR ''{'' then
            (if maxNestingDepth \<le> d then None
             else if skip_space r \<noteq> [] \<and> hd (skip_space r) = CHR ''}''
             then Some (JObject [], tl (skip_space r))
             else with_rest JObject (members (d + 1) r))
          else if c = CHR ''['' then
            (if maxNestingDepth \<le> d then None
             else if skip_space r \<noteq> [] \<and> hd (skip_space r) = CHR '']''
             then Some (JArray [], tl (skip_space r))
             else with_rest JArray (elements (d + 1) r))
          else if c = CHR 0x22 then with_rest JString (string_body r)
          else if c = CHR ''t'' then map_option (Pair (JBool True)) (literal ''rue'' r)
          else if c = CHR ''f'' then map_option (Pair (JBool False)) (literal ''alse'' r)
          else if c = CHR ''n'' then map_option (Pair JNull) (literal ''ull'' r)
          else if c = CHR ''-'' \<or> is_digit c then map_option (Pair JNumber) (number (c # r))
          else None)"
| "elements d s =
     (case json_value d s of
        None \<Rightarrow> None
      | Some (v, r) \<Rightarrow>
          (case skip_space r of
             [] \<Rightarrow> None
           | c # r' \<Rightarrow>
               if c = CHR '','' then
                 (if length r' < length s then with_rest ((#) v) (elements d r') else None)
               else if c = CHR '']'' then Some ([v], r')
               else None))"
| "members d s =
     (case skip_space s of
        [] \<Rightarrow> None
      | c # r \<Rightarrow>
          if c = CHR 0x22 then
            (case string_body r of
               None \<Rightarrow> None
             | Some (k, r1) \<Rightarrow>
                 (case skip_space r1 of
                    [] \<Rightarrow> None
                  | c1 # r2 \<Rightarrow>
                      if c1 = CHR '':'' \<and> length r2 < length s then
                        (case json_value d r2 of
                           None \<Rightarrow> None
                         | Some (v, r3) \<Rightarrow>
                             (case skip_space r3 of
                                [] \<Rightarrow> None
                              | c3 # r4 \<Rightarrow>
                                  if c3 = CHR '','' then
                                    (if length r4 < length s
                                     then with_rest ((#) (k, v)) (members d r4) else None)
                                  else if c3 = CHR ''}'' then Some ([(k, v)], r4)
                                  else None))
                      else None))
          else None)"
  by pat_completeness auto
termination
  apply (relation "inv_image (measure length <*lex*> measure id)
    (\<lambda>x. case x of Inl (d, s) \<Rightarrow> (s, 0::nat) | Inr (Inl (d, s)) \<Rightarrow> (s, 1) | Inr (Inr (d, s)) \<Rightarrow> (s, 1))")
        apply (auto dest: skip_space_Cons)
  done

declare json_value.simps [simp del] elements.simps [simp del] members.simps [simp del]

lemma digits_length: "length (digits s) \<le> length s"
  by (simp add: digits_def length_dropWhile_le)

lemma exponent_length: "exponent s = Some r \<Longrightarrow> length r \<le> length s"
proof (cases s)
  case Nil
  assume "exponent s = Some r"
  with Nil show ?thesis by simp
next
  case (Cons c t)
  assume a: "exponent s = Some r"
  show ?thesis
  proof (cases "c = CHR ''e'' \<or> c = CHR ''E''")
    case True
    with a Cons obtain u where r: "r = digits u" and u: "length u < length t"
      by (auto split: list.splits if_splits)
    from digits_length[of u] r u Cons show ?thesis by simp
  next
    case False
    with a Cons show ?thesis by auto
  qed
qed

lemma fraction_length: "fraction s = Some r \<Longrightarrow> length r \<le> length s"
proof (cases s)
  case Nil
  assume "fraction s = Some r"
  with Nil show ?thesis by simp
next
  case (Cons c t)
  assume a: "fraction s = Some r"
  show ?thesis
  proof (cases "c = CHR ''.''")
    case True
    with a Cons obtain d u where t: "t = d # u" and e: "exponent (digits u) = Some r"
      by (auto split: list.splits if_splits)
    from exponent_length[OF e] digits_length[of u] t Cons show ?thesis by simp
  next
    case False
    with a Cons have "exponent s = Some r" by simp
    from exponent_length[OF this] show ?thesis .
  qed
qed

lemma number_length: "number (c # s) = Some r \<Longrightarrow> length r \<le> length s"
proof -
  assume a: "number (c # s) = Some r"
  show ?thesis
  proof (cases "c = CHR ''-''")
    case True
    with a obtain d u where s: "s = d # u"
      and f: "fraction u = Some r \<or> fraction (digits u) = Some r"
      by (auto simp: number_def split: list.splits if_splits)
    from f fraction_length[of u r] fraction_length[of "digits u" r] digits_length[of u] s
    show ?thesis by auto
  next
    case False
    with a have "fraction s = Some r \<or> fraction (digits s) = Some r"
      by (auto simp: number_def split: if_splits)
    with fraction_length[of s r] fraction_length[of "digits s" r] digits_length[of s]
    show ?thesis by auto
  qed
qed

lemma literal_length: "literal l s = Some r \<Longrightarrow> length r \<le> length s"
  by (auto simp: literal_def split: if_splits)

lemma with_rest_Some: "with_rest f x = Some (y, r) \<Longrightarrow> \<exists>z. x = Some (z, r)"
  by (auto simp: with_rest_def split: option.splits)

lemma tl_length: "length (tl xs) \<le> length xs"
  by simp

lemma json_value_shorter:
  "json_value d s = Some (v, r) \<Longrightarrow> length r < length s"
  "elements d s = Some (vs, r) \<Longrightarrow> length r < length s"
  "members d s = Some (kvs, r) \<Longrightarrow> length r < length s"
proof (induction d s and d s and d s arbitrary: v r and vs r and kvs r
    rule: json_value_elements_members.induct)
  case (1 d s)
  from "1.prems" obtain c t where sk: "skip_space s = c # t"
    by (subst (asm) json_value.simps) (auto split: list.splits)
  note len = skip_space_Cons[OF sk]
  from "1.prems" sk have v:
    "(if c = CHR ''{'' then
            (if maxNestingDepth \<le> d then None
             else if skip_space t \<noteq> [] \<and> hd (skip_space t) = CHR ''}''
             then Some (JObject [], tl (skip_space t))
             else with_rest JObject (members (d + 1) t))
          else if c = CHR ''['' then
            (if maxNestingDepth \<le> d then None
             else if skip_space t \<noteq> [] \<and> hd (skip_space t) = CHR '']''
             then Some (JArray [], tl (skip_space t))
             else with_rest JArray (elements (d + 1) t))
          else if c = CHR 0x22 then with_rest JString (string_body t)
          else if c = CHR ''t'' then map_option (Pair (JBool True)) (literal ''rue'' t)
          else if c = CHR ''f'' then map_option (Pair (JBool False)) (literal ''alse'' t)
          else if c = CHR ''n'' then map_option (Pair JNull) (literal ''ull'' t)
          else if c = CHR ''-'' \<or> is_digit c then map_option (Pair JNumber) (number (c # t))
          else None) = Some (v, r)"
    by (subst (asm) json_value.simps) simp
  have "length r \<le> length t"
  proof (cases "c = CHR ''{''")
    case ob: True
    from v ob have nd: "\<not> maxNestingDepth \<le> d" by (auto split: if_splits)
    show ?thesis
    proof (cases "skip_space t \<noteq> [] \<and> hd (skip_space t) = CHR ''}''")
      case True
      with v ob nd have "r = tl (skip_space t)" by simp
      with skip_space_length[of t] tl_length[of "skip_space t"] show ?thesis by simp
    next
      case False
      with v ob nd obtain z where "members (d + 1) t = Some (z, r)"
        by (auto dest: with_rest_Some)
      from "1.IH"(1)[OF sk ob nd False this] show ?thesis by simp
    qed
  next
    case nob: False
    show ?thesis
    proof (cases "c = CHR ''[''")
      case ar: True
      from v nob ar have nd: "\<not> maxNestingDepth \<le> d" by (auto split: if_splits)
      show ?thesis
      proof (cases "skip_space t \<noteq> [] \<and> hd (skip_space t) = CHR '']''")
        case True
        with v nob ar nd have "r = tl (skip_space t)" by simp
        with skip_space_length[of t] tl_length[of "skip_space t"] show ?thesis by simp
      next
        case False
        with v nob ar nd obtain z where "elements (d + 1) t = Some (z, r)"
          by (auto dest: with_rest_Some)
        from "1.IH"(2)[OF sk nob ar nd False this] show ?thesis by simp
      qed
    next
      case nar: False
      from v nob nar show ?thesis
        by (auto split: if_splits dest!: with_rest_Some string_body_shorter literal_length
            number_length)
    qed
  qed
  with len show ?case by simp
next
  case (2 d s)
  from "2.prems" obtain v t where jv: "json_value d s = Some (v, t)"
    by (subst (asm) elements.simps) (auto split: option.splits)
  from "2.IH"(1)[OF jv] have t: "length t < length s" .
  from "2.prems" jv obtain c t' where sk: "skip_space t = c # t'"
    by (subst (asm) elements.simps) (auto split: list.splits)
  from skip_space_Cons[OF sk] t have t': "length t' < length s" by simp
  from "2.prems" jv sk have e:
    "(if c = CHR '','' then
        (if length t' < length s then with_rest ((#) v) (elements d t') else None)
      else if c = CHR '']'' then Some ([v], t')
      else None) = Some (vs, r)"
    by (subst (asm) elements.simps) simp
  show ?case
  proof (cases "c = CHR '',''")
    case True
    with e t' obtain z where "elements d t' = Some (z, r)"
      by (auto dest: with_rest_Some)
    from "2.IH"(2)[OF jv refl sk True t' this] t' show ?thesis by simp
  next
    case False
    with e t' show ?thesis by (auto split: if_splits)
  qed
next
  case (3 d s)
  from "3.prems" obtain c t where sk: "skip_space s = c # t"
    by (subst (asm) members.simps) (auto split: list.splits)
  from "3.prems" sk have q: "c = CHR 0x22"
    by (subst (asm) members.simps) (auto split: if_splits)
  from "3.prems" sk q obtain k r1 where sb: "string_body t = Some (k, r1)"
    by (subst (asm) members.simps) (auto split: option.splits)
  from "3.prems" sk q sb obtain c1 r2 where sk1: "skip_space r1 = c1 # r2"
    by (subst (asm) members.simps) (auto split: list.splits)
  from "3.prems" sk q sb sk1 have colon: "c1 = CHR '':'' \<and> length r2 < length s"
    by (subst (asm) members.simps) (auto split: if_splits)
  from "3.prems" sk q sb sk1 colon obtain v r3 where jv: "json_value d r2 = Some (v, r3)"
    by (subst (asm) members.simps) (auto split: option.splits)
  from "3.prems" sk q sb sk1 colon jv obtain c3 r4 where sk3: "skip_space r3 = c3 # r4"
    by (subst (asm) members.simps) (auto split: list.splits)
  from "3.prems" sk q sb sk1 colon jv sk3 have m:
    "(if c3 = CHR '','' then
        (if length r4 < length s then with_rest ((#) (k, v)) (members d r4) else None)
      else if c3 = CHR ''}'' then Some ([(k, v)], r4)
      else None) = Some (kvs, r)"
    by (subst (asm) members.simps) simp
  from "3.IH"(1)[OF sk q sb refl sk1 colon jv] colon
  have r3: "length r3 < length s" by simp
  from skip_space_Cons[OF sk3] r3 have r4: "length r4 < length s" by simp
  show ?case
  proof (cases "c3 = CHR '',''")
    case True
    with m r4 obtain z where "members d r4 = Some (z, r)"
      by (auto dest: with_rest_Some)
    from "3.IH"(2)[OF sk q sb refl sk1 colon jv refl sk3 True r4 this] r4
    show ?thesis by simp
  next
    case False
    with m r4 show ?thesis by (auto split: if_splits)
  qed
qed

text \<open>
  The comparisons of lengths in \<open>elements\<close> and \<open>members\<close> are always true where they
  stand: the two functions satisfy the equations without them.
\<close>

lemma elements_unfold:
  "elements d s =
     (case json_value d s of
        None \<Rightarrow> None
      | Some (v, r) \<Rightarrow>
          (case skip_space r of
             [] \<Rightarrow> None
           | c # r' \<Rightarrow>
               if c = CHR '','' then with_rest ((#) v) (elements d r')
               else if c = CHR '']'' then Some ([v], r')
               else None))"
proof (cases "json_value d s")
  case None
  then show ?thesis by (subst elements.simps) simp
next
  case (Some a)
  obtain v r where a: "a = (v, r)" by (cases a)
  from Some a have "length r < length s" by (auto dest: json_value_shorter(1))
  then have "\<And>c r'. skip_space r = c # r' \<Longrightarrow> length r' < length s"
    by (auto dest!: skip_space_Cons)
  with Some a show ?thesis
    by (subst elements.simps) (simp split: list.splits)
qed

lemma members_unfold:
  "members d s =
     (case skip_space s of
        [] \<Rightarrow> None
      | c # r \<Rightarrow>
          if c = CHR 0x22 then
            (case string_body r of
               None \<Rightarrow> None
             | Some (k, r1) \<Rightarrow>
                 (case skip_space r1 of
                    [] \<Rightarrow> None
                  | c1 # r2 \<Rightarrow>
                      if c1 = CHR '':'' then
                        (case json_value d r2 of
                           None \<Rightarrow> None
                         | Some (v, r3) \<Rightarrow>
                             (case skip_space r3 of
                                [] \<Rightarrow> None
                              | c3 # r4 \<Rightarrow>
                                  if c3 = CHR '','' then with_rest ((#) (k, v)) (members d r4)
                                  else if c3 = CHR ''}'' then Some ([(k, v)], r4)
                                  else None))
                      else None))
          else None)"
proof -
  have g: "length r4 < length s \<and> length r2 < length s"
    if "skip_space s = c # r" "string_body r = Some (k, r1)" "skip_space r1 = c1 # r2"
      "json_value d r2 = Some (v, r3) \<or> r3 = r2" "skip_space r3 = c3 # r4 \<or> r4 = r2"
    for c r k r1 c1 r2 v r3 c3 r4
  proof -
    from that(1) have "length r < length s" by (rule skip_space_Cons)
    moreover from that(2) have "length r1 < length r" by (rule string_body_shorter)
    moreover from that(3) have "length r2 < length r1" by (rule skip_space_Cons)
    moreover from that(4) have "length r3 \<le> length r2"
      by (auto dest: json_value_shorter(1))
    moreover from that(5) have "length r4 \<le> length r3 \<or> r4 = r2"
      by (auto dest: skip_space_Cons)
    ultimately show ?thesis by auto
  qed
  show ?thesis
    apply (subst members.simps)
    apply (simp split: list.splits option.splits prod.splits)
    apply (intro allI impI conjI)
    using g apply blast+
    done
qed

text \<open>
  \<^verbatim>\<open>checkValid\<close>: the input is one value, with nothing but white space around it.
\<close>

definition checkValid :: "string \<Rightarrow> json option" where
  "checkValid b =
     (case json_value 0 b of
        None \<Rightarrow> None
      | Some (v, r) \<Rightarrow> if skip_space r = [] then Some v else None)"

text \<open>
  Storing the value into the map.  \<^verbatim>\<open>null\<close> leaves the map as it is, which is nil; an
  object makes a map and stores its members in turn, a later member replacing an earlier
  one with the same key; a member whose value is \<^verbatim>\<open>null\<close> is stored as the empty string;
  any other value cannot be stored in a string, and any value but \<^verbatim>\<open>null\<close> and an object
  cannot be stored in the map.  The order of the entries, which stands for the order a
  \<^verbatim>\<open>range\<close> loop visits them in, is taken to be that of the document.  The errors are
  named by their Go types; their message is not modelled.
\<close>

fun member_string :: "json \<Rightarrow> string option" where
  "member_string (JString s) = Some s"
| "member_string JNull = Some []"
| "member_string _ = None"

fun store :: "(string \<times> json) list \<Rightarrow> (string \<times> string) list \<Rightarrow> (string \<times> string) list option" where
  "store [] m = Some m"
| "store ((k, v) # kvs) m =
     (case member_string v of
        None \<Rightarrow> None
      | Some x \<Rightarrow> store kvs (AList.update k x m))"

definition SyntaxError :: string where
  "SyntaxError = ''*json.SyntaxError''"

definition UnmarshalTypeError :: string where
  "UnmarshalTypeError = ''*json.UnmarshalTypeError''"

definition Unmarshal :: "string \<Rightarrow> string + gomap" where
  "Unmarshal b =
     (case checkValid b of
        None \<Rightarrow> Inl SyntaxError
      | Some JNull \<Rightarrow> Inr None
      | Some (JObject kvs) \<Rightarrow>
          (case store kvs [] of
             None \<Rightarrow> Inl UnmarshalTypeError
           | Some m \<Rightarrow> Inr (Some m))
      | Some _ \<Rightarrow> Inl UnmarshalTypeError)"


text \<open>
  The shape the specification asks of a configuration, a flat object with string values,
  and the shape the decoder stores without error: \<^verbatim>\<open>null\<close>, or an object all of whose
  values are strings or \<^verbatim>\<open>null\<close>; \<open>stored\<close> is the map the decoder makes of such a value.
\<close>

fun is_string :: "json \<Rightarrow> bool" where
  "is_string (JString s) = True"
| "is_string _ = False"

fun string_or_null :: "json \<Rightarrow> bool" where
  "string_or_null (JString s) = True"
| "string_or_null JNull = True"
| "string_or_null _ = False"

definition flat_string_object :: "json \<Rightarrow> bool" where
  "flat_string_object v =
     (case v of JObject kvs \<Rightarrow> list_all (\<lambda>(k, x). is_string x) kvs | _ \<Rightarrow> False)"

definition storable :: "json \<Rightarrow> bool" where
  "storable v =
     (case v of
        JNull \<Rightarrow> True
      | JObject kvs \<Rightarrow> list_all (\<lambda>(k, x). string_or_null x) kvs
      | _ \<Rightarrow> False)"

definition stored :: "json \<Rightarrow> gomap" where
  "stored v = (case v of JObject kvs \<Rightarrow> store kvs [] | _ \<Rightarrow> None)"

subsection \<open>The library of a process\<close>

text \<open>
  The library as exclude.go sees it in a process with the system state \<open>sys\<close> and the JSON
  decoder \<open>dec\<close>, which is \<open>Unmarshal\<close> in every example below.
\<close>

definition golib :: "os \<Rightarrow> (string \<Rightarrow> string + gomap) \<Rightarrow> lib" where
  "golib sys dec =
     \<lparr>json_Unmarshal = dec,
      filepath_Glob = (\<lambda>pattern. snd (Glob sys pattern)),
      filepath_Abs = Abs sys,
      filepath_Match = Match\<rparr>"

text \<open>
  A process with the given result of \<^verbatim>\<open>os.Getwd\<close>, in a file system where no directory
  can be listed and no file is found (what \<^verbatim>\<open>Glob\<close> would list is discarded by
  exclude.go anyway).
\<close>

definition process :: "string + string \<Rightarrow> os" where
  "process wd = \<lparr>Getwd = wd, Lstat_ok = (\<lambda>p. False), dir_names = (\<lambda>d. None)\<rparr>"

text \<open>
  A process in the working directory \<^verbatim>\<open>/repo\<close>, which holds the two files \<^verbatim>\<open>exclude.go\<close>
  and \<^verbatim>\<open>go.mod\<close>.
\<close>

definition checkout :: os where
  "checkout =
     \<lparr>Getwd = Inr ''/repo'',
      Lstat_ok = (\<lambda>p. p = ''.'' \<or> p = ''exclude.go'' \<or> p = ''go.mod''),
      dir_names = (\<lambda>d. if d = ''.'' then Some [''exclude.go'', ''go.mod''] else None)\<rparr>"

section \<open>The canonical path of a pattern\<close>

text \<open>
  The specification speaks of the path obtained from a pattern by replacing its wildcards
  with literal characters that match.  exclude.go has no such function; it is defined here
  along the way the matcher reads a pattern, chunk by chunk: a star is replaced by nothing,
  a question mark by the letter \<^verbatim>\<open>x\<close>, an escaped character by the character itself, and a
  character class by the first printable ASCII character that the class accepts.  There
  is no canonical path when a class is malformed or accepts none of these characters, or
  when the pattern ends with a backslash.
\<close>

definition printable :: string where
  "printable =
     ''!'' @ [CHR 0x22] @ ''#$%&'' @ [CHR 0x27] @ ''()*+,-./0123456789:;<=>?@''
     @ ''ABCDEFGHIJKLMNOPQRSTUVWXYZ['' @ [backslash] @ '']^_`''
     @ ''abcdefghijklmnopqrstuvwxyz{|}~''"

text \<open>Whether the class whose ranges start the chunk accepts the character \<open>b\<close>.\<close>

definition accepts :: "bool \<Rightarrow> string \<Rightarrow> char \<Rightarrow> bool" where
  "accepts negated chunk b =
     (case ranges (byte b) False 0 chunk of
        Inl err \<Rightarrow> False
      | Inr (match, chunk') \<Rightarrow> match \<noteq> negated)"

definition class_member :: "bool \<Rightarrow> string \<Rightarrow> (char \<times> string) option" where
  "class_member negated chunk =
     (case find (accepts negated chunk) printable of
        None \<Rightarrow> None
      | Some b \<Rightarrow>
          (case ranges (byte b) False 0 chunk of
             Inl err \<Rightarrow> None
           | Inr (match, chunk') \<Rightarrow> Some (b, chunk')))"

lemma class_member_shorter:
  "class_member negated chunk = Some (b, chunk') \<Longrightarrow> length chunk' < length chunk"
  by (auto simp: class_member_def split: option.splits sum.splits dest: ranges_shorter)

function fill_chunk :: "string \<Rightarrow> string option" where
  "fill_chunk [] = Some []"
| "fill_chunk (c # chunk) =
     (if c = CHR ''['' then
        (let negated = (chunk \<noteq> [] \<and> hd chunk = CHR ''^'');
             chunk1 = (if negated then tl chunk else chunk)
         in case class_member negated chunk1 of
              None \<Rightarrow> None
            | Some (b, chunk2) \<Rightarrow> map_option ((#) b) (fill_chunk chunk2))
      else if c = CHR ''?'' then map_option ((#) CHR ''x'') (fill_chunk chunk)
      else if c = backslash then
        (case chunk of
           [] \<Rightarrow> None
         | d # ds \<Rightarrow> map_option ((#) d) (fill_chunk ds))
      else map_option ((#) c) (fill_chunk chunk))"
  by pat_completeness auto
termination
  apply (relation "measure length")
      apply simp
     apply (auto dest!: class_member_shorter split: if_splits)
  done

function canonicalize :: "string \<Rightarrow> string option" where
  "canonicalize [] = Some []"
| "canonicalize (c # cs) =
     (case scanChunk (c # cs) of
        (star, chunk, rest) \<Rightarrow>
          (case fill_chunk chunk of
             None \<Rightarrow> None
           | Some q \<Rightarrow> map_option ((@) q) (canonicalize rest)))"
  by pat_completeness auto
termination
  by (relation "measure length") (auto dest: scanChunk_shorter')

section \<open>Properties\<close>

text \<open>The definitions unfolded to run the model on a concrete input.\<close>

lemmas go_defs = scanChunk_def matchChunk_def Separator_def backslash_def ErrBadPattern_def
  RuneError_def byte_def between_def Clean_def IsAbs_def Abs_def hasMeta_def Split_def
  meta_def cleanGlobPath_def glob_def Glob_def golib_def process_def checkout_def Let_def
  ranges.simps backtrack.simps globWithLimit.simps
lemmas src_defs = keys_def index_def UnmarshalJSON_def Excluded_def invalid_pattern_msg_def
lemmas json_eval = Unmarshal_def checkValid_def skip_space_def is_space_def is_digit_def digits_def
  literal_def number_def hex_digit_def getu4_def IsSurrogate_def utf16_DecodeRune_def
  EncodeRune_def escaped_def prepend_def with_rest_def maxNestingDepth_def
  SyntaxError_def UnmarshalTypeError_def byte_def backslash_def RuneError_def
  json_value.simps elements.simps members.simps
lemmas canon_defs = printable_def accepts_def class_member_def

text \<open>What the decoder makes of the documents used in the examples.\<close>

lemma json_defs:
  "Unmarshal ''null'' = Inr None"
  "Unmarshal ''{}'' = Inr (Some [])"
  "Unmarshal ''{\"a\": \"r\"}'' = Inr (Some [(''a'', ''r'')])"
  "Unmarshal ''{\"a\": \"r\", \"/x\": \"s\"}'' = Inr (Some [(''a'', ''r''), (''/x'', ''s'')])"
  "Unmarshal ''{\"a\": \"r\", \"[invalid\": \"bad\"}'' = Inr (Some [(''a'', ''r''), (''[invalid'', ''bad'')])"
  "Unmarshal ''{\"[invalid\": \"bad\"}'' = Inr (Some [(''[invalid'', ''bad'')])"
  "Unmarshal ''{\"/a/../b\": \"r\"}'' = Inr (Some [(''/a/../b'', ''r'')])"
  "Unmarshal ''{\"a\": \"first\", \"./a\": \"second\"}'' = Inr (Some [(''a'', ''first''), (''./a'', ''second'')])"
  "Unmarshal ''{\"*.log\": \"noise\"}'' = Inr (Some [(''*.log'', ''noise'')])"
  "Unmarshal ''{\"testdata/testdata.go\": \"Tracked in issue #42\"}'' = Inr (Some [(''testdata/testdata.go'', ''Tracked in issue #42'')])"
  "Unmarshal ''{\"a*[\": \"r\"}'' = Inr (Some [(''a*['', ''r'')])"
  "Unmarshal ''{\"a\": null}'' = Inr (Some [(''a'', [])])"
  "Unmarshal ''{\"a\": 1}'' = Inl UnmarshalTypeError"
  "Unmarshal ''not json'' = Inl SyntaxError"
  by (simp_all add: json_eval)

subsection \<open>Excluded\<close>

lemma Excluded_loop_no_error:
  "\<forall>k\<in>set ks. \<exists>b. filepath_Match L k p = Inr b \<Longrightarrow>
   Excluded_loop L ks p = Return (\<exists>k\<in>set ks. filepath_Match L k p = Inr True)"
  by (induction ks) auto

lemma Excluded_loop_True:
  "Excluded_loop L ks p = Return True \<Longrightarrow> \<exists>k\<in>set ks. filepath_Match L k p = Inr True"
  by (induction ks) (auto split: sum.splits if_splits)

lemma Excluded_loop_False:
  "Excluded_loop L ks p = Return False \<Longrightarrow> \<forall>k\<in>set ks. filepath_Match L k p = Inr False"
  by (induction ks) (auto split: sum.splits if_splits)




text \<open>
  C10.  A zero-value \<^verbatim>\<open>Exclude\<close> (the nil map, never loaded) can be queried: \<^verbatim>\<open>Excluded\<close>
  returns false for every path, exactly as it does on the empty map.
\<close>

theorem Excluded_nil_map:
  "Excluded L None p = Return False \<and> Excluded L None p = Excluded L (Some []) p"
  by (simp add: Excluded_def keys_def)

text \<open>
  C9 (as amended).  Each call of \<^verbatim>\<open>Excluded\<close> visits the stored patterns in an order of
  its own, so two calls on one mapping are two visiting orders, \<open>e\<close> and \<open>e'\<close>, of the same
  set of patterns.  When the matcher rejects none of the patterns on \<open>p\<close> the two calls
  give the same result, and in any case two calls that both return give the same boolean.
\<close>

theorem Excluded_order_independent:
  "(set (keys e) = set (keys e') \<and> (\<forall>k\<in>set (keys e). \<exists>b. filepath_Match L k p = Inr b)
      \<longrightarrow> Excluded L e p = Excluded L e' p)
   \<and> (set (keys e) = set (keys e') \<and> Excluded L e p = Return a \<and> Excluded L e' p = Return b
      \<longrightarrow> a = b)"
proof (intro conjI impI)
  assume h: "set (keys e) = set (keys e') \<and> (\<forall>k\<in>set (keys e). \<exists>b. filepath_Match L k p = Inr b)"
  then have "Excluded_loop L (keys e) p
               = Return (\<exists>k\<in>set (keys e). filepath_Match L k p = Inr True)"
    by (intro Excluded_loop_no_error) blast
  moreover from h have "Excluded_loop L (keys e') p
               = Return (\<exists>k\<in>set (keys e'). filepath_Match L k p = Inr True)"
    by (intro Excluded_loop_no_error) simp
  ultimately show "Excluded L e p = Excluded L e' p"
    using h by (simp add: Excluded_def)
next
  assume h: "set (keys e) = set (keys e') \<and> Excluded L e p = Return a \<and> Excluded L e' p = Return b"
  then have s: "set (keys e) = set (keys e')"
    and ra: "Excluded_loop L (keys e) p = Return a"
    and rb: "Excluded_loop L (keys e') p = Return b"
    by (simp_all add: Excluded_def)
  show "a = b"
  proof (cases a)
    case True
    with ra have "\<exists>k\<in>set (keys e). filepath_Match L k p = Inr True"
      by (intro Excluded_loop_True) simp
    then obtain k where k: "k \<in> set (keys e')" "filepath_Match L k p = Inr True"
      using s by blast
    have "b"
    proof (rule ccontr)
      assume "\<not> b"
      with rb have "\<forall>k\<in>set (keys e'). filepath_Match L k p = Inr False"
        by (intro Excluded_loop_False) simp
      with k show False by auto
    qed
    with True show ?thesis by simp
  next
    case False
    with ra have all: "\<forall>k\<in>set (keys e). filepath_Match L k p = Inr False"
      by (intro Excluded_loop_False) simp
    have "\<not> b"
    proof
      assume "b"
      with rb have "\<exists>k\<in>set (keys e'). filepath_Match L k p = Inr True"
        by (intro Excluded_loop_True) simp
      with all s show False by auto
    qed
    with False show ?thesis by simp
  qed
qed

text \<open>
  An instance: the patterns \<^verbatim>\<open>/repo/a.go\<close> and \<^verbatim>\<open>/repo/*.log\<close> visited in either order,
  queried with \<^verbatim>\<open>/repo/app.log\<close>.
\<close>

theorem Excluded_order_independent_witness:
  "set (keys (Some [(''/repo/a.go'', ''r''), (''/repo/*.log'', ''noise'')]))
     = set (keys (Some [(''/repo/*.log'', ''noise''), (''/repo/a.go'', ''r'')]))
   \<and> filepath_Match (golib (process (Inr ''/repo'')) Unmarshal) ''/repo/a.go'' ''/repo/app.log'' = Inr False
   \<and> filepath_Match (golib (process (Inr ''/repo'')) Unmarshal) ''/repo/*.log'' ''/repo/app.log'' = Inr True
   \<and> Excluded (golib (process (Inr ''/repo'')) Unmarshal)
        (Some [(''/repo/a.go'', ''r''), (''/repo/*.log'', ''noise'')]) ''/repo/app.log''
     = Excluded (golib (process (Inr ''/repo'')) Unmarshal)
        (Some [(''/repo/*.log'', ''noise''), (''/repo/a.go'', ''r'')]) ''/repo/app.log''
   \<and> Excluded (golib (process (Inr ''/repo'')) Unmarshal)
        (Some [(''/repo/*.log'', ''noise''), (''/repo/a.go'', ''r'')]) ''/repo/app.log'' = Return True"
proof -
  let ?L = "golib (process (Inr ''/repo'')) Unmarshal"
  let ?e = "Some [(''/repo/a.go'', ''r''), (''/repo/*.log'', ''noise'')]"
  let ?e' = "Some [(''/repo/*.log'', ''noise''), (''/repo/a.go'', ''r'')]"
  have m1: "filepath_Match ?L ''/repo/a.go'' ''/repo/app.log'' = Inr False"
    by (simp add: go_defs)
  have m2: "filepath_Match ?L ''/repo/*.log'' ''/repo/app.log'' = Inr True"
    by (simp add: go_defs)
  have k: "set (keys ?e) = {''/repo/a.go'', ''/repo/*.log''}" by (simp add: keys_def)
  have k': "set (keys ?e') = {''/repo/a.go'', ''/repo/*.log''}" by (auto simp: keys_def)
  have s: "set (keys ?e) = set (keys ?e')" using k k' by simp
  have h: "\<forall>k\<in>set (keys ?e). \<exists>b. filepath_Match ?L k ''/repo/app.log'' = Inr b"
    unfolding k using m1 m2 by blast
  from Excluded_order_independent[of ?e ?e' ?L "''/repo/app.log''"] s h
  have eq: "Excluded ?L ?e ''/repo/app.log'' = Excluded ?L ?e' ''/repo/app.log''"
    by blast
  have r: "Excluded ?L ?e' ''/repo/app.log'' = Return True"
    using m2 by (simp add: Excluded_def keys_def)
  from s m1 m2 eq r show ?thesis by blast
qed

text \<open>
  C9 as stated fails.  The set loaded from \<^verbatim>\<open>{"a": "r", "/x": "s"}\<close> in the working
  directory \<^verbatim>\<open>/[\<close> holds the patterns \<^verbatim>\<open>/[/a\<close> and \<^verbatim>\<open>/x\<close>.  Queried with \<^verbatim>\<open>/x\<close>, the
  call returns true when the loop visits \<^verbatim>\<open>/x\<close> first and panics when it visits
  \<^verbatim>\<open>/[/a\<close> first.
\<close>

theorem Excluded_depends_on_order:
  "UnmarshalJSON (golib (process (Inr ''/['')) Unmarshal) ''{\"a\": \"r\", \"/x\": \"s\"}'' None
     = (None, Some [(''/[/a'', ''r''), (''/x'', ''s'')])
   \<and> Excluded (golib (process (Inr ''/['')) Unmarshal)
        (Some [(''/x'', ''s''), (''/[/a'', ''r'')]) ''/x'' = Return True
   \<and> Excluded (golib (process (Inr ''/['')) Unmarshal)
        (Some [(''/[/a'', ''r''), (''/x'', ''s'')]) ''/x'' = Panic ''Uncaught bad pattern''"
proof (intro conjI)
  show "UnmarshalJSON (golib (process (Inr ''/['')) Unmarshal) ''{\"a\": \"r\", \"/x\": \"s\"}'' None
     = (None, Some [(''/[/a'', ''r''), (''/x'', ''s'')])"
    by (simp add: go_defs src_defs json_defs)
  show "Excluded (golib (process (Inr ''/['')) Unmarshal)
        (Some [(''/x'', ''s''), (''/[/a'', ''r'')]) ''/x'' = Return True"
    by (simp add: go_defs src_defs)
  show "Excluded (golib (process (Inr ''/['')) Unmarshal)
        (Some [(''/[/a'', ''r''), (''/x'', ''s'')]) ''/x'' = Panic ''Uncaught bad pattern''"
    by (simp add: go_defs src_defs)
qed

subsection \<open>UnmarshalJSON: failing loads\<close>

lemma load_loop_failure:
  "load_loop L m ks e0 = (Some err, e') \<Longrightarrow>
   \<exists>pre k post. ks = pre @ k # post \<and> load_loop L m pre e0 = (None, e')
     \<and> load_loop L m [k] e' = (Some err, e')"
proof (induction ks arbitrary: e0)
  case Nil
  then show ?case by simp
next
  case (Cons k ks)
  show ?case
  proof (cases "filepath_Glob L k")
    case (Some g)
    with Cons.prems have "e' = e0" "load_loop L m [k] e0 = (Some err, e0)" by auto
    then have "k # ks = [] @ k # ks \<and> load_loop L m [] e0 = (None, e')
        \<and> load_loop L m [k] e' = (Some err, e')" by simp
    then show ?thesis by blast
  next
    case None
    show ?thesis
    proof (cases "filepath_Abs L k")
      case (Inl a)
      with None Cons.prems have "e' = e0" "load_loop L m [k] e0 = (Some err, e0)" by auto
      then have "k # ks = [] @ k # ks \<and> load_loop L m [] e0 = (None, e')
          \<and> load_loop L m [k] e' = (Some err, e')" by simp
      then show ?thesis by blast
    next
      case (Inr a)
      with None Cons.prems
      have "load_loop L m ks (AList.update a (index m k) e0) = (Some err, e')" by simp
      from Cons.IH[OF this] obtain pre k' post where
        ks: "ks = pre @ k' # post"
        and pre: "load_loop L m pre (AList.update a (index m k) e0) = (None, e')"
        and step: "load_loop L m [k'] e' = (Some err, e')" by blast
      from pre None Inr have "load_loop L m (k # pre) e0 = (None, e')" by simp
      with ks step have "k # ks = (k # pre) @ k' # post \<and> load_loop L m (k # pre) e0 = (None, e')
          \<and> load_loop L m [k'] e' = (Some err, e')" by simp
      then show ?thesis by blast
    qed
  qed
qed

lemma load_loop_step_failure:
  "load_loop L m [k] x = (Some err, x') \<Longrightarrow>
   (\<exists>g. filepath_Glob L k = Some g \<and> err = InvalidPattern (invalid_pattern_msg k g))
   \<or> (filepath_Glob L k = None \<and> (\<exists>a. filepath_Abs L k = Inl a \<and> err = PathResolutionError k a))"
  by (auto split: option.splits sum.splits)

lemma load_loop_success_all:
  "load_loop L m ks e0 = (None, e') \<Longrightarrow>
   \<forall>k\<in>set ks. filepath_Glob L k = None \<and> (\<exists>a. filepath_Abs L k = Inr a)"
  by (induction ks arbitrary: e0) (auto split: option.splits sum.splits)

lemma load_loop_success_keys:
  "load_loop L m ks e0 = (None, e') \<Longrightarrow>
   set (map fst e') = set (map fst e0) \<union> {a. \<exists>k\<in>set ks. filepath_Abs L k = Inr a}"
proof (induction ks arbitrary: e0)
  case Nil
  then show ?case by simp
next
  case (Cons k ks)
  from Cons.prems obtain a where g: "filepath_Glob L k = None" and a: "filepath_Abs L k = Inr a"
    and rest: "load_loop L m ks (AList.update a (index m k) e0) = (None, e')"
    by (auto split: option.splits sum.splits)
  have "set (map fst (AList.update a (index m k) e0)) = insert a (set (map fst e0))"
    using dom_update[of a "index m k" e0] by simp
  with Cons.IH[OF rest] a show ?case by auto
qed

lemma load_loop_distinct:
  "distinct (map fst e0) \<Longrightarrow> load_loop L m ks e0 = (r, e') \<Longrightarrow> distinct (map fst e')"
proof (induction ks arbitrary: e0)
  case Nil
  then show ?case by simp
next
  case (Cons k ks)
  show ?case
  proof (cases "filepath_Glob L k")
    case (Some g)
    with Cons.prems show ?thesis by auto
  next
    case None
    show ?thesis
    proof (cases "filepath_Abs L k")
      case (Inl a)
      with None Cons.prems show ?thesis by auto
    next
      case (Inr a)
      with None Cons.prems
      have "load_loop L m ks (AList.update a (index m k) e0) = (r, e')" by simp
      moreover have "distinct (map fst (AList.update a (index m k) e0))"
        using Cons.prems(1) by (rule distinct_update)
      ultimately show ?thesis by (rule Cons.IH[rotated])
    qed
  qed
qed

lemma load_loop_last_wins:
  "load_loop L m ks e0 = (None, e') \<Longrightarrow>
   map_of e' a =
     (if \<exists>k\<in>set ks. filepath_Abs L k = Inr a
      then Some (index m (last (filter (\<lambda>k. filepath_Abs L k = Inr a) ks)))
      else map_of e0 a)"
proof (induction ks arbitrary: e0)
  case Nil
  then show ?case by simp
next
  case (Cons k ks)
  from Cons.prems obtain a' where a': "filepath_Abs L k = Inr a'"
    and rest: "load_loop L m ks (AList.update a' (index m k) e0) = (None, e')"
    by (auto split: option.splits sum.splits)
  note IH = Cons.IH[OF rest]
  show ?case
  proof (cases "\<exists>k\<in>set ks. filepath_Abs L k = Inr a")
    case True
    then have "filter (\<lambda>k. filepath_Abs L k = Inr a) ks \<noteq> []"
      by (simp add: filter_empty_conv)
    with IH True show ?thesis by simp
  next
    case False
    then have "filter (\<lambda>k. filepath_Abs L k = Inr a) ks = []"
      by (simp add: filter_empty_conv)
    with IH False a' show ?thesis by (simp add: update_conv')
  qed
qed

text \<open>
  C2 (as amended).  A load that fails returns the first error it meets and stops there.
  When the JSON decoder fails, the mapping of the receiver is left as it was.  Otherwise
  the mapping was reset and then filled in place: the patterns visited before the failing
  one all passed both checks, the failing pattern \<open>k\<close> is the one named by the error (its
  glob check failed, or its path resolution did), and the receiver holds exactly the
  entries stored for the patterns \<open>pre\<close> visited before \<open>k\<close>: its keys are pairwise
  different, they are the resolved forms of the patterns of \<open>pre\<close>, and each key holds the
  reason of the last pattern of \<open>pre\<close> that resolves to it.  The patterns after \<open>k\<close> are
  not looked at.
\<close>

theorem failed_load_keeps_earlier_entries:
  assumes "UnmarshalJSON L b e = (Some err, e')"
  shows "(\<exists>je. json_Unmarshal L b = Inl je \<and> err = MalformedConfig je \<and> e' = e)
       \<or> (\<exists>m pre k post x. json_Unmarshal L b = Inr m \<and> keys m = pre @ k # post \<and> e' = Some x
             \<and> load_loop L m pre [] = (None, x)
             \<and> (\<forall>p\<in>set pre. filepath_Glob L p = None \<and> (\<exists>a. filepath_Abs L p = Inr a))
             \<and> ((\<exists>g. filepath_Glob L k = Some g \<and> err = InvalidPattern (invalid_pattern_msg k g))
                \<or> (filepath_Glob L k = None
                     \<and> (\<exists>a. filepath_Abs L k = Inl a \<and> err = PathResolutionError k a)))
             \<and> distinct (map fst x)
             \<and> set (map fst x) = {a. \<exists>p\<in>set pre. filepath_Abs L p = Inr a}
             \<and> (\<forall>p\<in>set pre. \<forall>a. filepath_Abs L p = Inr a \<longrightarrow>
                   map_of x a
                     = Some (index m (last (filter (\<lambda>q. filepath_Abs L q = Inr a) pre)))))"
proof (cases "json_Unmarshal L b")
  case (Inl je)
  with assms show ?thesis by (simp add: UnmarshalJSON_def)
next
  case (Inr m)
  with assms obtain x where x: "load_loop L m (keys m) [] = (Some err, x)" and e': "e' = Some x"
    by (auto simp: UnmarshalJSON_def split: prod.splits)
  from load_loop_failure[OF x] obtain pre k post where
    ks: "keys m = pre @ k # post" and pre: "load_loop L m pre [] = (None, x)"
    and step: "load_loop L m [k] x = (Some err, x)" by blast
  have d: "distinct (map fst x)"
    using load_loop_distinct[OF _ pre] by simp
  have s: "set (map fst x) = {a. \<exists>p\<in>set pre. filepath_Abs L p = Inr a}"
    using load_loop_success_keys[OF pre] by simp
  have v: "\<forall>p\<in>set pre. \<forall>a. filepath_Abs L p = Inr a \<longrightarrow>
             map_of x a = Some (index m (last (filter (\<lambda>q. filepath_Abs L q = Inr a) pre)))"
  proof (intro ballI allI impI)
    fix p a
    assume "p \<in> set pre" and "filepath_Abs L p = Inr a"
    then have "\<exists>k\<in>set pre. filepath_Abs L k = Inr a" by blast
    with load_loop_last_wins[OF pre, of a]
    show "map_of x a = Some (index m (last (filter (\<lambda>q. filepath_Abs L q = Inr a) pre)))"
      by simp
  qed
  note load_loop_success_all[OF pre] load_loop_step_failure[OF step]
  with Inr ks e' pre d s v show ?thesis by blast
qed

text \<open>
  An instance: in the working directory \<^verbatim>\<open>/repo\<close>, the document
  \<^verbatim>\<open>{"a": "r", "[invalid": "bad"}\<close> with \<^verbatim>\<open>a\<close> visited first.
\<close>

theorem failed_load_keeps_earlier_entries_witness:
  "UnmarshalJSON (golib (process (Inr ''/repo'')) Unmarshal)
       ''{\"a\": \"r\", \"[invalid\": \"bad\"}'' None
     = (Some (InvalidPattern ''invalid pattern: pattern=[invalid err=syntax error in pattern''),
        Some [(''/repo/a'', ''r'')])
   \<and> (\<exists>pre k post. keys (Some [(''a'', ''r''), (''[invalid'', ''bad'')]) = pre @ k # post
         \<and> load_loop (golib (process (Inr ''/repo'')) Unmarshal)
              (Some [(''a'', ''r''), (''[invalid'', ''bad'')]) pre [] = (None, [(''/repo/a'', ''r'')])
         \<and> set (map fst [(''/repo/a'', ''r'')])
             = {a. \<exists>p\<in>set pre. filepath_Abs (golib (process (Inr ''/repo'')) Unmarshal) p = Inr a})"
proof -
  let ?L = "golib (process (Inr ''/repo'')) Unmarshal"
  let ?b = "''{\"a\": \"r\", \"[invalid\": \"bad\"}''"
  let ?err = "InvalidPattern ''invalid pattern: pattern=[invalid err=syntax error in pattern''"
  have d: "json_Unmarshal ?L ?b = Inr (Some [(''a'', ''r''), (''[invalid'', ''bad'')])"
    by (simp add: golib_def json_defs)
  have r: "UnmarshalJSON ?L ?b None = (Some ?err, Some [(''/repo/a'', ''r'')])"
    by (simp add: go_defs src_defs json_defs)
  have nl: "\<And>je. json_Unmarshal ?L ?b \<noteq> Inl je" using d by simp
  from failed_load_keeps_earlier_entries[OF r] nl obtain m pre k post x where
    m: "json_Unmarshal ?L ?b = Inr m" and ks: "keys m = pre @ k # post"
    and x: "Some [(''/repo/a'', ''r'')] = Some x"
    and pre: "load_loop ?L m pre [] = (None, x)"
    and s: "set (map fst x) = {a. \<exists>p\<in>set pre. filepath_Abs ?L p = Inr a}"
    by blast
  from m d have m': "m = Some [(''a'', ''r''), (''[invalid'', ''bad'')]" by simp
  from x have x': "x = [(''/repo/a'', ''r'')]" by simp
  from ks pre s
  have "\<exists>pre k post. keys (Some [(''a'', ''r''), (''[invalid'', ''bad'')]) = pre @ k # post
         \<and> load_loop ?L (Some [(''a'', ''r''), (''[invalid'', ''bad'')]) pre [] = (None, [(''/repo/a'', ''r'')])
         \<and> set (map fst [(''/repo/a'', ''r'')]) = {a. \<exists>p\<in>set pre. filepath_Abs ?L p = Inr a}"
    unfolding m' x' by blast
  with r show ?thesis by blast
qed

text \<open>
  C2 as stated fails.  After the failed load of \<^verbatim>\<open>{"a": "r", "[invalid": "bad"}\<close> (with
  \<^verbatim>\<open>a\<close> visited first) the receiver, nil before, holds the entry of the pattern \<^verbatim>\<open>a\<close>.
\<close>

theorem failed_load_leaves_partial_entries:
  "fst (UnmarshalJSON (golib (process (Inr ''/repo'')) Unmarshal)
          ''{\"a\": \"r\", \"[invalid\": \"bad\"}'' None)
     = Some (InvalidPattern ''invalid pattern: pattern=[invalid err=syntax error in pattern'')
   \<and> entries (snd (UnmarshalJSON (golib (process (Inr ''/repo'')) Unmarshal)
          ''{\"a\": \"r\", \"[invalid\": \"bad\"}'' None)) = [(''/repo/a'', ''r'')]"
  by (simp add: go_defs src_defs json_defs)

lemma member_string_None: "(member_string x = None) = (\<not> string_or_null x)"
  by (cases x) simp_all

lemma store_None_iff:
  "(store kvs m = None) = (\<not> list_all (\<lambda>(k, x). string_or_null x) kvs)"
proof (induction kvs arbitrary: m)
  case Nil
  then show ?case by simp
next
  case (Cons a kvs)
  obtain k x where a: "a = (k, x)" by (cases a)
  show ?case
  proof (cases "member_string x")
    case None
    with a show ?thesis using member_string_None[of x] by simp
  next
    case (Some y)
    with a Cons.IH[of "AList.update k y m"] show ?thesis
      using member_string_None[of x] by simp
  qed
qed

lemma Unmarshal_cases:
  "Unmarshal b =
     (case checkValid b of
        None \<Rightarrow> Inl SyntaxError
      | Some v \<Rightarrow> if storable v then Inr (stored v) else Inl UnmarshalTypeError)"
proof (cases "checkValid b")
  case None
  then show ?thesis by (simp add: Unmarshal_def)
next
  case (Some v)
  show ?thesis
  proof (cases v)
    case (JObject kvs)
    show ?thesis
    proof (cases "store kvs []")
      case None
      with Some JObject show ?thesis
        using store_None_iff[of kvs "[]"] by (simp add: Unmarshal_def storable_def)
    next
      case (Some m)
      with \<open>checkValid b = Some v\<close> JObject show ?thesis
        using store_None_iff[of kvs "[]"] by (simp add: Unmarshal_def storable_def stored_def)
    qed
  qed (use Some in \<open>simp_all add: Unmarshal_def storable_def stored_def\<close>)
qed

lemma load_loop_no_MalformedConfig: "fst (load_loop L m ks e0) \<noteq> Some (MalformedConfig err)"
  by (induction ks arbitrary: e0) (auto split: option.splits sum.splits)

lemma is_string_or_null: "is_string x \<Longrightarrow> string_or_null x"
  by (cases x) simp_all

lemma flat_string_object_storable: "flat_string_object v \<Longrightarrow> storable v"
  by (cases v) (auto simp: flat_string_object_def storable_def list_all_iff is_string_or_null)

text \<open>
  C5 (as amended).  With the decoder of encoding/json, the load fails with the decoder's
  error, and leaves the mapping of the receiver as it was, exactly in two cases: when the
  input is not valid JSON (a syntax error), and when it is valid JSON but is neither
  \<^verbatim>\<open>null\<close> nor an object all of whose values are strings or \<^verbatim>\<open>null\<close> (a type error).  No
  pattern is validated in these cases: the result is the same whatever \<^verbatim>\<open>Glob\<close>, \<^verbatim>\<open>Abs\<close>
  and \<^verbatim>\<open>Match\<close> would do.  In every other case the decoding succeeds and the load does
  not fail with a \<open>MalformedConfig\<close>.  A flat object of strings is always decoded.
\<close>

theorem malformed_config_aborts_load:
  assumes "json_Unmarshal L = Unmarshal"
  shows "(checkValid b = None
            \<longrightarrow> UnmarshalJSON L b e = (Some (MalformedConfig SyntaxError), e))
       \<and> (\<forall>v. checkValid b = Some v \<and> \<not> storable v
            \<longrightarrow> UnmarshalJSON L b e = (Some (MalformedConfig UnmarshalTypeError), e))
       \<and> (\<forall>v. checkValid b = Some v \<and> storable v
            \<longrightarrow> Unmarshal b = Inr (stored v)
                \<and> (\<forall>err. fst (UnmarshalJSON L b e) \<noteq> Some (MalformedConfig err)))
       \<and> (\<forall>v. flat_string_object v \<longrightarrow> storable v)"
proof (intro conjI allI impI)
  assume "checkValid b = None"
  with assms show "UnmarshalJSON L b e = (Some (MalformedConfig SyntaxError), e)"
    by (simp add: UnmarshalJSON_def Unmarshal_cases)
next
  fix v
  assume "checkValid b = Some v \<and> \<not> storable v"
  with assms show "UnmarshalJSON L b e = (Some (MalformedConfig UnmarshalTypeError), e)"
    by (simp add: UnmarshalJSON_def Unmarshal_cases)
next
  fix v
  assume "checkValid b = Some v \<and> storable v"
  then show "Unmarshal b = Inr (stored v)" by (simp add: Unmarshal_cases)
next
  fix v err
  assume "checkValid b = Some v \<and> storable v"
  then have u: "json_Unmarshal L b = Inr (stored v)" using assms by (simp add: Unmarshal_cases)
  have "fst (load_loop L (stored v) (keys (stored v)) []) \<noteq> Some (MalformedConfig err)"
    by (rule load_loop_no_MalformedConfig)
  with u show "fst (UnmarshalJSON L b e) \<noteq> Some (MalformedConfig err)"
    by (auto simp: UnmarshalJSON_def split: prod.splits)
next
  fix v
  assume "flat_string_object v"
  then show "storable v" by (rule flat_string_object_storable)
qed

text \<open>
  Instances, the receiver holding an earlier load: the input \<^verbatim>\<open>not json\<close> is not valid
  JSON; \<^verbatim>\<open>{"a": 1}\<close> is valid JSON, its member is a number; \<^verbatim>\<open>{"a": "r"}\<close> is a flat object
  of strings and is loaded.
\<close>

theorem malformed_config_aborts_load_witness:
  "json_Unmarshal (golib (process (Inr ''/repo'')) Unmarshal) = Unmarshal
   \<and> checkValid ''not json'' = None
   \<and> UnmarshalJSON (golib (process (Inr ''/repo'')) Unmarshal) ''not json''
        (Some [(''/repo/a'', ''r'')])
       = (Some (MalformedConfig SyntaxError), Some [(''/repo/a'', ''r'')])
   \<and> checkValid ''{\"a\": 1}'' = Some (JObject [(''a'', JNumber)])
   \<and> storable (JObject [(''a'', JNumber)]) = False
   \<and> UnmarshalJSON (golib (process (Inr ''/repo'')) Unmarshal) ''{\"a\": 1}''
        (Some [(''/repo/a'', ''r'')])
       = (Some (MalformedConfig UnmarshalTypeError), Some [(''/repo/a'', ''r'')])
   \<and> checkValid ''{\"a\": \"r\"}'' = Some (JObject [(''a'', JString ''r'')])
   \<and> flat_string_object (JObject [(''a'', JString ''r'')])
   \<and> storable (JObject [(''a'', JString ''r'')])
   \<and> Unmarshal ''{\"a\": \"r\"}'' = Inr (stored (JObject [(''a'', JString ''r'')]))
   \<and> stored (JObject [(''a'', JString ''r'')]) = Some [(''a'', ''r'')]"
proof -
  let ?L = "golib (process (Inr ''/repo'')) Unmarshal"
  let ?e = "Some [(''/repo/a'', ''r'')]"
  have L: "json_Unmarshal ?L = Unmarshal" by (simp add: golib_def)
  have v1: "checkValid ''not json'' = None" by (simp add: json_eval)
  have v2: "checkValid ''{\"a\": 1}'' = Some (JObject [(''a'', JNumber)])"
    by (simp add: json_eval)
  have n2: "\<not> storable (JObject [(''a'', JNumber)])" by (simp add: storable_def)
  have v3: "checkValid ''{\"a\": \"r\"}'' = Some (JObject [(''a'', JString ''r'')])"
    by (simp add: json_eval)
  have f3: "flat_string_object (JObject [(''a'', JString ''r'')])"
    by (simp add: flat_string_object_def)
  have s3: "stored (JObject [(''a'', JString ''r'')]) = Some [(''a'', ''r'')]"
    by (simp add: stored_def)
  note t1 = malformed_config_aborts_load[OF L, of "''not json''" ?e]
  note t2 = malformed_config_aborts_load[OF L, of "''{\"a\": 1}''" ?e]
  note t3 = malformed_config_aborts_load[OF L, of "''{\"a\": \"r\"}''" ?e]
  from t1 v1 have r1: "UnmarshalJSON ?L ''not json'' ?e = (Some (MalformedConfig SyntaxError), ?e)"
    by blast
  from t2 v2 n2
  have r2: "UnmarshalJSON ?L ''{\"a\": 1}'' ?e = (Some (MalformedConfig UnmarshalTypeError), ?e)"
    by blast
  from t3 f3 have st: "storable (JObject [(''a'', JString ''r'')])" by blast
  from t3 v3 st have r3: "Unmarshal ''{\"a\": \"r\"}'' = Inr (stored (JObject [(''a'', JString ''r'')]))"
    by blast
  from L v1 r1 v2 n2 r2 v3 f3 st r3 s3 show ?thesis by simp
qed

text \<open>
  C5 as stated fails.  The inputs \<^verbatim>\<open>null\<close> and \<^verbatim>\<open>{"a": null}\<close> are valid JSON and are not
  flat objects with string values, yet the decoder accepts them and the load succeeds:
  \<^verbatim>\<open>null\<close> leaves the decoded map nil and gives an empty mapping, and the member that is
  \<^verbatim>\<open>null\<close> is stored with the empty string as its reason.
\<close>

theorem null_document_loads:
  "checkValid ''null'' = Some JNull
   \<and> flat_string_object JNull = False
   \<and> UnmarshalJSON (golib (process (Inr ''/repo'')) Unmarshal) ''null'' None = (None, Some [])
   \<and> checkValid ''{\"a\": null}'' = Some (JObject [(''a'', JNull)])
   \<and> flat_string_object (JObject [(''a'', JNull)]) = False
   \<and> UnmarshalJSON (golib (process (Inr ''/repo'')) Unmarshal) ''{\"a\": null}'' None
       = (None, Some [(''/repo/a'', [])])"
proof (intro conjI)
  show "checkValid ''null'' = Some JNull" by (simp add: json_eval)
  show "flat_string_object JNull = False" by (simp add: flat_string_object_def)
  show "UnmarshalJSON (golib (process (Inr ''/repo'')) Unmarshal) ''null'' None = (None, Some [])"
    by (simp add: go_defs src_defs json_defs)
  show "checkValid ''{\"a\": null}'' = Some (JObject [(''a'', JNull)])" by (simp add: json_eval)
  show "flat_string_object (JObject [(''a'', JNull)]) = False"
    by (simp add: flat_string_object_def)
  show "UnmarshalJSON (golib (process (Inr ''/repo'')) Unmarshal) ''{\"a\": null}'' None
       = (None, Some [(''/repo/a'', [])])"
    by (simp add: go_defs src_defs json_defs)
qed

subsection \<open>UnmarshalJSON: rejected patterns\<close>

lemma load_loop_rejected:
  "k \<in> set ks \<Longrightarrow> filepath_Glob L k = Some g \<Longrightarrow>
   \<exists>err. fst (load_loop L m ks e0) = Some err
     \<and> ((\<exists>p g'. p \<in> set ks \<and> filepath_Glob L p = Some g'
            \<and> err = InvalidPattern (invalid_pattern_msg p g'))
        \<or> (\<exists>p a. p \<in> set ks \<and> filepath_Abs L p = Inl a \<and> err = PathResolutionError p a))"
proof (induction ks arbitrary: e0)
  case Nil
  then show ?case by simp
next
  case (Cons p ks)
  show ?case
  proof (cases "filepath_Glob L p")
    case (Some g')
    then show ?thesis by auto
  next
    case None
    with Cons.prems have k: "k \<in> set ks" by auto
    show ?thesis
    proof (cases "filepath_Abs L p")
      case (Inl a)
      with None show ?thesis by auto
    next
      case (Inr a)
      from Cons.IH[OF k Cons.prems(2), of "AList.update a (index m p) e0"]
      obtain err where
        "fst (load_loop L m ks (AList.update a (index m p) e0)) = Some err"
        "(\<exists>p g'. p \<in> set ks \<and> filepath_Glob L p = Some g'
            \<and> err = InvalidPattern (invalid_pattern_msg p g'))
        \<or> (\<exists>p a. p \<in> set ks \<and> filepath_Abs L p = Inl a \<and> err = PathResolutionError p a)"
        by blast
      with None Inr show ?thesis by auto
    qed
  qed
qed

lemma Glob_malformed: "Match p [] = Inl ge \<Longrightarrow> snd (Glob sys p) = Some ge"
  by (simp add: Glob_def globWithLimit.simps)

lemma Abs_error: "Abs sys p = Inl a \<Longrightarrow> \<not> IsAbs p \<and> Getwd sys = Inl a"
  by (auto simp: Abs_def split: if_splits sum.splits)

text \<open>
  What the glob check of the load does catch: a pattern on which the matcher fails for
  the empty name, which is the first thing \<^verbatim>\<open>Glob\<close> tries.  A configuration with such a
  pattern is not loaded; the error is raised at the first pattern in visiting order that
  does not pass both checks.
\<close>

lemma rejected_pattern_fails_load:
  assumes "dec b = Inr m" and "k \<in> set (keys m)" and "Match k [] = Inl ge"
  shows "(\<exists>err pre p post. fst (UnmarshalJSON (golib sys dec) b e) = Some err
           \<and> keys m = pre @ p # post
           \<and> (\<forall>q\<in>set pre. snd (Glob sys q) = None \<and> (\<exists>a. Abs sys q = Inr a))
           \<and> ((\<exists>g. snd (Glob sys p) = Some g
                  \<and> err = InvalidPattern (''invalid pattern: pattern='' @ p @ '' err='' @ g))
              \<or> (snd (Glob sys p) = None \<and> \<not> IsAbs p
                  \<and> (\<exists>a. Getwd sys = Inl a \<and> err = PathResolutionError p a))))
       \<and> (keys m = [k] \<longrightarrow> fst (UnmarshalJSON (golib sys dec) b e)
             = Some (InvalidPattern (''invalid pattern: pattern='' @ k @ '' err='' @ ge)))"
proof (intro conjI impI)
  let ?L = "golib sys dec"
  have g: "filepath_Glob ?L k = Some ge"
    using Glob_malformed[OF assms(3)] by (simp add: golib_def)
  from load_loop_rejected[OF assms(2) g, of m "[]"] obtain err where
    "fst (load_loop ?L m (keys m) []) = Some err" by blast
  then obtain x where x: "load_loop ?L m (keys m) [] = (Some err, x)"
    by (cases "load_loop ?L m (keys m) []") simp
  have "json_Unmarshal ?L b = Inr m" using assms(1) by (simp add: golib_def)
  with x have f: "fst (UnmarshalJSON ?L b e) = Some err"
    by (simp add: UnmarshalJSON_def)
  from load_loop_failure[OF x] obtain pre p post where
    ks: "keys m = pre @ p # post" and pre: "load_loop ?L m pre [] = (None, x)"
    and step: "load_loop ?L m [p] x = (Some err, x)" by blast
  from load_loop_success_all[OF pre]
  have passed: "\<forall>q\<in>set pre. snd (Glob sys q) = None \<and> (\<exists>a. Abs sys q = Inr a)"
    by (simp add: golib_def)
  from load_loop_step_failure[OF step]
  have which: "(\<exists>g. snd (Glob sys p) = Some g
                  \<and> err = InvalidPattern (''invalid pattern: pattern='' @ p @ '' err='' @ g))
              \<or> (snd (Glob sys p) = None \<and> \<not> IsAbs p
                  \<and> (\<exists>a. Getwd sys = Inl a \<and> err = PathResolutionError p a))"
    by (auto simp: golib_def invalid_pattern_msg_def dest: Abs_error)
  from f ks passed which
  show "\<exists>err pre p post. fst (UnmarshalJSON ?L b e) = Some err
           \<and> keys m = pre @ p # post
           \<and> (\<forall>q\<in>set pre. snd (Glob sys q) = None \<and> (\<exists>a. Abs sys q = Inr a))
           \<and> ((\<exists>g. snd (Glob sys p) = Some g
                  \<and> err = InvalidPattern (''invalid pattern: pattern='' @ p @ '' err='' @ g))
              \<or> (snd (Glob sys p) = None \<and> \<not> IsAbs p
                  \<and> (\<exists>a. Getwd sys = Inl a \<and> err = PathResolutionError p a)))"
    by blast
next
  let ?L = "golib sys dec"
  assume single: "keys m = [k]"
  have g: "filepath_Glob ?L k = Some ge"
    using Glob_malformed[OF assms(3)] by (simp add: golib_def)
  with single assms(1) show "fst (UnmarshalJSON ?L b e)
      = Some (InvalidPattern (''invalid pattern: pattern='' @ k @ '' err='' @ ge))"
    by (simp add: UnmarshalJSON_def golib_def invalid_pattern_msg_def)
qed

text \<open>
  The example of the specification: the document \<^verbatim>\<open>{"[invalid": "bad"}\<close> is not loaded, and
  the message of the error carries the pattern.
\<close>

lemma unclosed_class_fails_load:
  "Match ''[invalid'' [] = Inl ''syntax error in pattern''
   \<and> UnmarshalJSON (golib (process (Inr ''/repo'')) Unmarshal) ''{\"[invalid\": \"bad\"}'' None
       = (Some (InvalidPattern ''invalid pattern: pattern=[invalid err=syntax error in pattern''),
          Some [])"
  by (simp add: go_defs src_defs json_defs)

text \<open>
  The error of a configuration that holds a malformed pattern need not be an
  \<open>InvalidPattern\<close>: when the working directory cannot be determined and the relative
  pattern \<^verbatim>\<open>a\<close> is visited before \<^verbatim>\<open>[invalid\<close>, the load fails with the path resolution
  error of \<^verbatim>\<open>a\<close>.
\<close>

lemma path_error_before_malformed_pattern:
  "UnmarshalJSON (golib (process (Inl ''getwd: no such file or directory'')) Unmarshal)
        ''{\"a\": \"r\", \"[invalid\": \"bad\"}'' None
     = (Some (PathResolutionError ''a'' ''getwd: no such file or directory''), Some [])"
  by (simp add: go_defs src_defs json_defs)

text \<open>
  C4 fails on the code.  The pattern \<^verbatim>\<open>a*[\<close> is malformed: its character class is not
  closed, and the matcher rejects it on the name \<^verbatim>\<open>ab\<close>.  In the working directory
  \<^verbatim>\<open>/repo\<close>, which holds the files \<^verbatim>\<open>exclude.go\<close> and \<^verbatim>\<open>go.mod\<close>, the glob check of the load
  does not notice: \<^verbatim>\<open>Glob\<close> only runs the matcher on the empty name and on the names of
  the directory, the matcher stops at the first chunk that does not match, and none of
  these names starts with \<^verbatim>\<open>a\<close>.  The load of \<^verbatim>\<open>{"a*[": "r"}\<close> succeeds with no error and
  stores the malformed pattern, on which \<^verbatim>\<open>Excluded\<close> later panics.
\<close>

theorem malformed_pattern_passes_load:
  "Match ''a*['' ''ab'' = Inl ErrBadPattern
   \<and> Match ''a*['' [] = Inr False
   \<and> Match ''a*['' ''exclude.go'' = Inr False
   \<and> Match ''a*['' ''go.mod'' = Inr False
   \<and> Glob checkout ''a*['' = ([], None)
   \<and> UnmarshalJSON (golib checkout Unmarshal) ''{\"a*[\": \"r\"}'' None
       = (None, Some [(''/repo/a*['', ''r'')])
   \<and> Match ''/repo/a*['' ''/repo/ab'' = Inl ErrBadPattern
   \<and> Excluded (golib checkout Unmarshal) (Some [(''/repo/a*['', ''r'')]) ''/repo/ab''
       = Panic ''Uncaught bad pattern''"
proof (intro conjI)
  show "Match ''a*['' ''ab'' = Inl ErrBadPattern" by (simp add: go_defs)
  show "Match ''a*['' [] = Inr False" by (simp add: go_defs)
  show "Match ''a*['' ''exclude.go'' = Inr False" by (simp add: go_defs)
  show "Match ''a*['' ''go.mod'' = Inr False" by (simp add: go_defs)
  show "Glob checkout ''a*['' = ([], None)" by (simp add: go_defs)
  show "UnmarshalJSON (golib checkout Unmarshal) ''{\"a*[\": \"r\"}'' None
       = (None, Some [(''/repo/a*['', ''r'')])"
    by (simp add: go_defs src_defs json_defs)
  show "Match ''/repo/a*['' ''/repo/ab'' = Inl ErrBadPattern" by (simp add: go_defs)
  show "Excluded (golib checkout Unmarshal) (Some [(''/repo/a*['', ''r'')]) ''/repo/ab''
       = Panic ''Uncaught bad pattern''"
    by (simp add: go_defs src_defs)
qed

subsection \<open>UnmarshalJSON: successful loads\<close>

lemma Join_wd: "wd \<noteq> [] \<Longrightarrow> Join [wd, p] = Clean (wd @ ''/'' @ p)"
  by (simp add: Separator_def)

text \<open>
  C3 (as amended).  After a successful load, every key of the mapping is what
  \<^verbatim>\<open>filepath.Abs\<close> makes of a raw pattern, and every raw pattern has its key: an absolute
  pattern \<open>p\<close> is stored as \<open>Clean p\<close>, its lexically cleaned form, and a relative pattern
  is stored as \<open>Join [wd, p]\<close> for the working directory \<open>wd\<close>, which is
  \<open>Clean (wd @ ''/'' @ p)\<close>.
\<close>

theorem stored_keys_are_cleaned_paths:
  assumes "dec b = Inr m" and "UnmarshalJSON (golib sys dec) b e = (None, e')"
  shows "(\<forall>p\<in>set (keys m). IsAbs p \<longrightarrow> Clean p \<in> set (keys e'))
       \<and> (\<forall>p\<in>set (keys m). \<not> IsAbs p \<longrightarrow>
             (\<exists>wd. Getwd sys = Inr wd \<and> Join [wd, p] \<in> set (keys e')
                \<and> (wd \<noteq> [] \<longrightarrow> Join [wd, p] = Clean (wd @ ''/'' @ p))))
       \<and> (\<forall>k\<in>set (keys e'). \<exists>p\<in>set (keys m). Abs sys p = Inr k)"
proof -
  let ?L = "golib sys dec"
  have d: "json_Unmarshal ?L b = Inr m" using assms(1) by (simp add: golib_def)
  with assms(2) obtain x where x: "load_loop ?L m (keys m) [] = (None, x)" and e': "e' = Some x"
    by (auto simp: UnmarshalJSON_def split: prod.splits)
  from load_loop_success_keys[OF x]
  have ks: "set (keys e') = {a. \<exists>k\<in>set (keys m). Abs sys k = Inr a}"
    by (simp add: e' keys_def golib_def)
  from load_loop_success_all[OF x]
  have all: "\<forall>k\<in>set (keys m). \<exists>a. Abs sys k = Inr a" by (simp add: golib_def)
  have 1: "\<forall>p\<in>set (keys m). IsAbs p \<longrightarrow> Clean p \<in> set (keys e')"
    unfolding ks by (auto simp: Abs_def)
  have 2: "\<forall>p\<in>set (keys m). \<not> IsAbs p \<longrightarrow>
             (\<exists>wd. Getwd sys = Inr wd \<and> Join [wd, p] \<in> set (keys e')
                \<and> (wd \<noteq> [] \<longrightarrow> Join [wd, p] = Clean (wd @ ''/'' @ p)))"
  proof (intro ballI impI)
    fix p assume p: "p \<in> set (keys m)" and rel: "\<not> IsAbs p"
    from all p obtain a where a: "Abs sys p = Inr a" by blast
    with rel obtain wd where wd: "Getwd sys = Inr wd" and j: "a = Join [wd, p]"
      by (auto simp: Abs_def split: sum.splits)
    from a p j have "Join [wd, p] \<in> set (keys e')" unfolding ks by blast
    with wd Join_wd[of wd p]
    show "\<exists>wd. Getwd sys = Inr wd \<and> Join [wd, p] \<in> set (keys e')
                \<and> (wd \<noteq> [] \<longrightarrow> Join [wd, p] = Clean (wd @ ''/'' @ p))"
      by blast
  qed
  have 3: "\<forall>k\<in>set (keys e'). \<exists>p\<in>set (keys m). Abs sys p = Inr k"
    unfolding ks by blast
  from 1 2 3 show ?thesis by blast
qed

text \<open>
  Instances.  The example of the specification: the relative pattern
  \<^verbatim>\<open>testdata/testdata.go\<close> loaded in the working directory \<^verbatim>\<open>/repo\<close> is stored as
  \<^verbatim>\<open>/repo/testdata/testdata.go\<close>; that path is excluded, and
  \<^verbatim>\<open>/other/testdata/testdata.go\<close> is not.  And the absolute pattern \<^verbatim>\<open>/a/../b\<close>, stored
  in its cleaned form.
\<close>

theorem stored_keys_are_cleaned_paths_witness:
  "UnmarshalJSON (golib (process (Inr ''/repo'')) Unmarshal)
       ''{\"testdata/testdata.go\": \"Tracked in issue #42\"}'' None
     = (None, Some [(''/repo/testdata/testdata.go'', ''Tracked in issue #42'')])
   \<and> \<not> IsAbs ''testdata/testdata.go''
   \<and> Join [''/repo'', ''testdata/testdata.go''] = ''/repo/testdata/testdata.go''
   \<and> Join [''/repo'', ''testdata/testdata.go'']
        \<in> set (keys (Some [(''/repo/testdata/testdata.go'', ''Tracked in issue #42'')]))
   \<and> Excluded (golib (process (Inr ''/repo'')) Unmarshal)
        (Some [(''/repo/testdata/testdata.go'', ''Tracked in issue #42'')])
        ''/repo/testdata/testdata.go'' = Return True
   \<and> Excluded (golib (process (Inr ''/repo'')) Unmarshal)
        (Some [(''/repo/testdata/testdata.go'', ''Tracked in issue #42'')])
        ''/other/testdata/testdata.go'' = Return False
   \<and> IsAbs ''/a/../b''
   \<and> UnmarshalJSON (golib (process (Inr ''/repo'')) Unmarshal) ''{\"/a/../b\": \"r\"}'' None
       = (None, Some [(''/b'', ''r'')])
   \<and> Clean ''/a/../b'' \<in> set (keys (Some [(''/b'', ''r'')]))"
proof -
  let ?sys = "process (Inr ''/repo'')"
  let ?L = "golib ?sys Unmarshal"
  let ?b = "''{\"testdata/testdata.go\": \"Tracked in issue #42\"}''"
  let ?m = "Some [(''testdata/testdata.go'', ''Tracked in issue #42'')]"
  let ?e = "Some [(''/repo/testdata/testdata.go'', ''Tracked in issue #42'')]"
  have d: "Unmarshal ?b = Inr ?m" by (simp add: json_defs)
  have r: "UnmarshalJSON ?L ?b None = (None, ?e)"
    by (simp add: go_defs src_defs json_defs)
  have rel: "\<not> IsAbs ''testdata/testdata.go''" by (simp add: go_defs)
  have p: "''testdata/testdata.go'' \<in> set (keys ?m)" by (simp add: keys_def)
  have wd: "Getwd ?sys = Inr ''/repo''" by (simp add: process_def)
  from stored_keys_are_cleaned_paths[where dec = Unmarshal and sys = ?sys, OF d r] p rel
  obtain wd' where "Getwd ?sys = Inr wd'"
    and "Join [wd', ''testdata/testdata.go''] \<in> set (keys ?e)"
    by blast
  with wd have j: "Join [''/repo'', ''testdata/testdata.go''] \<in> set (keys ?e)" by simp
  have jv: "Join [''/repo'', ''testdata/testdata.go''] = ''/repo/testdata/testdata.go''"
    by (simp add: go_defs)
  have x1: "Excluded ?L ?e ''/repo/testdata/testdata.go'' = Return True"
    by (simp add: go_defs src_defs)
  have x2: "Excluded ?L ?e ''/other/testdata/testdata.go'' = Return False"
    by (simp add: go_defs src_defs)
  have d2: "Unmarshal ''{\"/a/../b\": \"r\"}'' = Inr (Some [(''/a/../b'', ''r'')])"
    by (simp add: json_defs)
  have r2: "UnmarshalJSON ?L ''{\"/a/../b\": \"r\"}'' None = (None, Some [(''/b'', ''r'')])"
    by (simp add: go_defs src_defs json_defs)
  have ab: "IsAbs ''/a/../b''" by (simp add: go_defs)
  have p2: "''/a/../b'' \<in> set (keys (Some [(''/a/../b'', ''r'')]))" by (simp add: keys_def)
  from stored_keys_are_cleaned_paths[where dec = Unmarshal and sys = ?sys, OF d2 r2] p2 ab
  have c: "Clean ''/a/../b'' \<in> set (keys (Some [(''/b'', ''r'')]))" by blast
  from r rel jv j x1 x2 ab r2 c show ?thesis by blast
qed

text \<open>
  C3 as stated fails.  The absolute pattern \<^verbatim>\<open>/a/../b\<close> is not stored as it is: its key
  is \<^verbatim>\<open>/b\<close>.
\<close>

theorem absolute_pattern_is_cleaned:
  "IsAbs ''/a/../b''
   \<and> UnmarshalJSON (golib (process (Inr ''/repo'')) Unmarshal) ''{\"/a/../b\": \"r\"}'' None
       = (None, Some [(''/b'', ''r'')])"
  by (simp add: go_defs src_defs json_defs)

subsection \<open>Patterns without metacharacters\<close>

lemma hasMeta_iff: "hasMeta k = (\<exists>c\<in>set k. meta c)"
  by (simp add: hasMeta_def list_ex_iff)

lemma scan_literal: "\<forall>c\<in>set p. \<not> meta c \<Longrightarrow> scan inrange p = (p, [])"
  by (induction p arbitrary: inrange) (auto simp: meta_def)

lemma scanChunk_literal:
  "\<forall>c\<in>set p. \<not> meta c \<Longrightarrow> scanChunk p = (False, p, [])"
  by (cases p) (auto simp: scanChunk_def scan_literal meta_def)

subsection \<open>The canonical path matches its pattern\<close>

lemma printable_ascii: "b \<in> set printable \<Longrightarrow> byte b < 0x80"
  by (auto simp: printable_def byte_def backslash_def)

lemma class_member_accepts:
  assumes "class_member negated chunk = Some (b, chunk')"
  shows "byte b < 0x80 \<and> (\<exists>match. ranges (byte b) False 0 chunk = Inr (match, chunk') \<and> match \<noteq> negated)"
proof -
  from assms obtain b' where f: "find (accepts negated chunk) printable = Some b'"
    by (auto simp: class_member_def split: option.splits)
  then have a: "accepts negated chunk b'" and p: "b' \<in> set printable"
    by (auto simp: find_Some_iff)
  from assms f a have "b' = b"
    by (auto simp: class_member_def accepts_def split: sum.splits)
  with assms f a p show ?thesis
    by (auto simp: class_member_def accepts_def printable_ascii split: sum.splits)
qed

lemma DecodeRuneInString_ascii: "byte b < 0x80 \<Longrightarrow> DecodeRuneInString (b # s) = (byte b, 1)"
  by (simp add: Let_def)

lemma fill_chunk_matches:
  "fill_chunk chunk = Some q \<Longrightarrow> matchChunk_loop False chunk (q @ t) = Inr (t, True)"
proof (induction chunk arbitrary: q rule: fill_chunk.induct)
  case 1
  then show ?case by simp
next
  case (2 c chunk)
  show ?case
  proof (cases "c = CHR ''[''")
    case br: True
    define negated where "negated = (chunk \<noteq> [] \<and> hd chunk = CHR ''^'')"
    define chunk1 where "chunk1 = (if negated then tl chunk else chunk)"
    from "2.prems" br obtain b chunk2 q2 where
      cm: "class_member negated chunk1 = Some (b, chunk2)"
      and f2: "fill_chunk chunk2 = Some q2" and q: "q = b # q2"
      by (auto simp: Let_def negated_def chunk1_def split: option.splits)
    from class_member_accepts[OF cm] obtain match where
      asc: "byte b < 0x80" and rg: "ranges (byte b) False 0 chunk1 = Inr (match, chunk2)"
      and mn: "match \<noteq> negated" by blast
    from "2.IH"(1)[OF br negated_def chunk1_def cm refl f2]
    have ih: "matchChunk_loop False chunk2 (q2 @ t) = Inr (t, True)" .
    from br q asc rg mn ih show ?thesis
      by (simp add: Let_def negated_def[symmetric] chunk1_def[symmetric] DecodeRuneInString_ascii)
  next
    case nbr: False
    show ?thesis
    proof (cases "c = CHR ''?''")
      case qm: True
      from "2.prems" nbr qm obtain q2 where f2: "fill_chunk chunk = Some q2"
        and q: "q = CHR ''x'' # q2" by auto
      from "2.IH"(2)[OF nbr qm f2] have ih: "matchChunk_loop False chunk (q2 @ t) = Inr (t, True)" .
      from nbr qm q ih show ?thesis
        by (simp add: Let_def Separator_def byte_def)
    next
      case nqm: False
      show ?thesis
      proof (cases "c = backslash")
        case bs: True
        from "2.prems" nbr nqm bs obtain d ds q2 where ch: "chunk = d # ds"
          and f2: "fill_chunk ds = Some q2" and q: "q = d # q2"
          by (auto split: list.splits)
        from "2.IH"(3)[OF nbr nqm bs ch f2]
        have ih: "matchChunk_loop False ds (q2 @ t) = Inr (t, True)" .
        from nbr nqm bs ch q ih show ?thesis by (simp add: Let_def)
      next
        case nbs: False
        from "2.prems" nbr nqm nbs obtain q2 where f2: "fill_chunk chunk = Some q2"
          and q: "q = c # q2" by auto
        from "2.IH"(4)[OF nbr nqm nbs f2]
        have ih: "matchChunk_loop False chunk (q2 @ t) = Inr (t, True)" .
        from nbr nqm nbs q ih show ?thesis by (simp add: Let_def)
      qed
    qed
  qed
qed

lemma skip_stars_no_star:
  "skip_stars p star = (star', p') \<Longrightarrow> p' = [] \<or> hd p' \<noteq> CHR ''*''"
  by (induction p star rule: skip_stars.induct) (auto split: if_splits)

lemma scan_empty_chunk:
  "scan False p = ([], rest) \<Longrightarrow> p = [] \<or> hd p = CHR ''*''"
  by (cases p) (auto split: if_splits list.splits prod.splits)

lemma scanChunk_empty_chunk: "scanChunk p = (star, [], rest) \<Longrightarrow> rest = []"
proof -
  assume a: "scanChunk p = (star, [], rest)"
  obtain s' p' where sk: "skip_stars p False = (s', p')" by (cases "skip_stars p False")
  with a have sc: "scan False p' = ([], rest)" by (simp add: scanChunk_def)
  from skip_stars_no_star[OF sk] scan_empty_chunk[OF sc] have "p' = []" by auto
  with sc show ?thesis by simp
qed

lemma canonicalize_matches: "canonicalize k = Some q \<Longrightarrow> Match k q = Inr True"
proof (induction k arbitrary: q rule: canonicalize.induct)
  case 1
  then show ?case by simp
next
  case (2 c cs)
  obtain star chunk rest where sc: "scanChunk (c # cs) = (star, chunk, rest)"
    by (cases "scanChunk (c # cs)")
  from "2.prems" sc obtain q1 q2 where f: "fill_chunk chunk = Some q1"
    and cr: "canonicalize rest = Some q2" and q: "q = q1 @ q2"
    by (auto split: option.splits)
  from "2.IH"[OF sc[symmetric] refl f cr] have ih: "Match rest q2 = Inr True" .
  show ?case
  proof (cases "star \<and> chunk = []")
    case True
    with sc have "rest = []" by (auto dest: scanChunk_empty_chunk)
    with cr f True q have "q = []" by simp
    with sc True show ?thesis by simp
  next
    case False
    have m: "matchChunk chunk q = Inr (q2, True)"
      unfolding matchChunk_def q by (rule fill_chunk_matches[OF f])
    have "q2 = [] \<or> rest \<noteq> []" using cr by (cases rest) auto
    with sc False m ih show ?thesis by auto
  qed
qed

lemma fill_chunk_literal: "\<forall>c\<in>set k. \<not> meta c \<Longrightarrow> fill_chunk k = Some k"
  by (induction k) (auto simp: meta_def)

lemma canonicalize_literal: "\<not> hasMeta k \<Longrightarrow> canonicalize k = Some k"
proof (cases k)
  case Nil
  then show ?thesis by simp
next
  case (Cons c cs)
  assume "\<not> hasMeta k"
  then have nm: "\<forall>c\<in>set k. \<not> meta c" by (simp add: hasMeta_iff)
  from scanChunk_literal[OF nm] fill_chunk_literal[OF nm] Cons show ?thesis by simp
qed

text \<open>
  C7 (as amended).  When loading the single-entry object \<open>{p: r}\<close> succeeds, the mapping
  holds exactly one entry: its key is the resolved pattern \<open>k\<close> that \<^verbatim>\<open>filepath.Abs\<close> makes
  of \<open>p\<close> and its value is the reason \<open>r\<close>.  The canonical path of the resolved pattern
  \<open>k\<close>, when there is one, is excluded; it is \<open>k\<close> itself when \<open>k\<close> contains no
  metacharacter.  \<^verbatim>\<open>Excluded(q)\<close> returns true exactly for the paths \<open>q\<close> that the matcher
  accepts for \<open>k\<close>.
\<close>

theorem single_entry_load:
  assumes "dec b = Inr (Some [(p, r)])" and "UnmarshalJSON (golib sys dec) b e = (None, e')"
  shows "\<exists>k. Abs sys p = Inr k \<and> e' = Some [(k, r)] \<and> index e' k = r
           \<and> (\<forall>q. canonicalize k = Some q \<longrightarrow> Excluded (golib sys dec) e' q = Return True)
           \<and> (\<not> hasMeta k \<longrightarrow> canonicalize k = Some k)
           \<and> (\<forall>q. (Excluded (golib sys dec) e' q = Return True) = (Match k q = Inr True))"
proof -
  let ?L = "golib sys dec"
  let ?m = "Some [(p, r)]"
  have d: "json_Unmarshal ?L b = Inr ?m" using assms(1) by (simp add: golib_def)
  with assms(2) obtain x where x: "load_loop ?L ?m [p] [] = (None, x)" and e': "e' = Some x"
    by (auto simp: UnmarshalJSON_def keys_def split: prod.splits)
  from x obtain k where k: "Abs sys p = Inr k" and xv: "x = [(k, r)]"
    by (auto simp: golib_def index_def split: option.splits sum.splits)
  have i: "index e' k = r" by (simp add: e' xv index_def)
  have q: "\<forall>q. (Excluded ?L e' q = Return True) = (Match k q = Inr True)"
    by (auto simp: e' xv Excluded_def keys_def golib_def split: sum.splits)
  have c: "\<forall>q. canonicalize k = Some q \<longrightarrow> Excluded ?L e' q = Return True"
    using q canonicalize_matches[of k] by blast
  have lit: "\<not> hasMeta k \<longrightarrow> canonicalize k = Some k"
    using canonicalize_literal[of k] by blast
  from k e' xv i q c lit show ?thesis by blast
qed

text \<open>
  Instances, in the working directory \<^verbatim>\<open>/repo\<close>: the object \<^verbatim>\<open>{"*.log": "noise"}\<close>, whose
  resolved pattern \<^verbatim>\<open>/repo/*.log\<close> has the canonical path \<^verbatim>\<open>/repo/.log\<close>, and the object
  \<^verbatim>\<open>{"a": "r"}\<close>, whose resolved pattern has no metacharacter.
\<close>

theorem single_entry_load_witness:
  "Unmarshal ''{\"*.log\": \"noise\"}'' = Inr (Some [(''*.log'', ''noise'')])
   \<and> UnmarshalJSON (golib (process (Inr ''/repo'')) Unmarshal) ''{\"*.log\": \"noise\"}'' None
       = (None, Some [(''/repo/*.log'', ''noise'')])
   \<and> canonicalize ''/repo/*.log'' = Some ''/repo/.log''
   \<and> Excluded (golib (process (Inr ''/repo'')) Unmarshal) (Some [(''/repo/*.log'', ''noise'')])
        ''/repo/.log'' = Return True
   \<and> index (Some [(''/repo/*.log'', ''noise'')]) ''/repo/*.log'' = ''noise''
   \<and> Unmarshal ''{\"a\": \"r\"}'' = Inr (Some [(''a'', ''r'')])
   \<and> UnmarshalJSON (golib (process (Inr ''/repo'')) Unmarshal) ''{\"a\": \"r\"}'' None
       = (None, Some [(''/repo/a'', ''r'')])
   \<and> hasMeta ''/repo/a'' = False
   \<and> Excluded (golib (process (Inr ''/repo'')) Unmarshal) (Some [(''/repo/a'', ''r'')]) ''/repo/a''
       = Return True"
proof -
  let ?sys = "process (Inr ''/repo'')"
  let ?b = "''{\"*.log\": \"noise\"}''"
  let ?b' = "''{\"a\": \"r\"}''"
  have d: "Unmarshal ?b = Inr (Some [(''*.log'', ''noise'')])" by (simp add: json_defs)
  have r: "UnmarshalJSON (golib ?sys Unmarshal) ?b None = (None, Some [(''/repo/*.log'', ''noise'')])"
    by (simp add: go_defs src_defs json_defs)
  have c: "canonicalize ''/repo/*.log'' = Some ''/repo/.log''"
    by (simp add: go_defs canon_defs)
  from single_entry_load[where dec = Unmarshal and sys = ?sys, OF d r] c
  have x: "Excluded (golib ?sys Unmarshal) (Some [(''/repo/*.log'', ''noise'')]) ''/repo/.log''
             = Return True"
    and i: "index (Some [(''/repo/*.log'', ''noise'')]) ''/repo/*.log'' = ''noise''"
    by auto
  have d': "Unmarshal ?b' = Inr (Some [(''a'', ''r'')])" by (simp add: json_defs)
  have r': "UnmarshalJSON (golib ?sys Unmarshal) ?b' None = (None, Some [(''/repo/a'', ''r'')])"
    by (simp add: go_defs src_defs json_defs)
  have nm: "\<not> hasMeta ''/repo/a''" by (simp add: go_defs)
  from single_entry_load[where dec = Unmarshal and sys = ?sys, OF d' r'] nm
  have x': "Excluded (golib ?sys Unmarshal) (Some [(''/repo/a'', ''r'')]) ''/repo/a'' = Return True"
    by auto
  from d r c x i d' r' nm x' show ?thesis by simp
qed

text \<open>
  C7 as stated fails.  The pattern \<^verbatim>\<open>a\<close> has no wildcard character, so its canonical path
  is \<^verbatim>\<open>a\<close>.  Loaded in the working directory \<^verbatim>\<open>/repo\<close> it is stored as \<^verbatim>\<open>/repo/a\<close>, and
  \<^verbatim>\<open>Excluded("a")\<close> returns false.
\<close>

theorem relative_pattern_not_excluded:
  "canonicalize ''a'' = Some ''a''
   \<and> UnmarshalJSON (golib (process (Inr ''/repo'')) Unmarshal) ''{\"a\": \"r\"}'' None
       = (None, Some [(''/repo/a'', ''r'')])
   \<and> Excluded (golib (process (Inr ''/repo'')) Unmarshal) (Some [(''/repo/a'', ''r'')]) ''a''
       = Return False"
  by (simp add: go_defs src_defs json_defs canon_defs)

subsection \<open>The keys of a loaded mapping\<close>

text \<open>
  What does hold of the keys after a successful load: they are pairwise different, a key
  that several raw patterns resolve to holds the reason of the one visited last, and every
  key is an absolute path when the working directory is.
\<close>

lemma loaded_keys_distinct:
  "UnmarshalJSON L b e = (r, e') \<Longrightarrow> json_Unmarshal L b = Inr m \<Longrightarrow> distinct (keys e')"
  by (auto simp: UnmarshalJSON_def keys_def split: prod.splits
      dest: load_loop_distinct[rotated])

lemma later_pattern_overwrites:
  assumes "UnmarshalJSON L b e = (None, e')" and "json_Unmarshal L b = Inr m"
    and "k \<in> set (keys m)" and "filepath_Abs L k = Inr a"
  shows "map_of (entries e') a
           = Some (index m (last (filter (\<lambda>k. filepath_Abs L k = Inr a) (keys m))))"
proof -
  from assms(1,2) obtain x where x: "load_loop L m (keys m) [] = (None, x)" and e': "e' = Some x"
    by (auto simp: UnmarshalJSON_def split: prod.splits)
  from load_loop_last_wins[OF x, of a] assms(3,4) show ?thesis
    by (auto simp: e')
qed

lemma later_pattern_overwrites_example:
  "UnmarshalJSON (golib (process (Inr ''/repo'')) Unmarshal)
       ''{\"a\": \"first\", \"./a\": \"second\"}'' None
     = (None, Some [(''/repo/a'', ''second'')])"
  by (simp add: go_defs src_defs json_defs)

lemma backtrack_le: "backtrack out dotdot w \<le> w"
proof (induction out dotdot w rule: backtrack.induct)
  case (1 out dotdot w)
  show ?case
  proof (cases "dotdot < w \<and> out ! w \<noteq> Separator")
    case True
    with 1 have "backtrack out dotdot (w - 1) \<le> w - 1" by simp
    with True show ?thesis by (subst backtrack.simps) simp
  next
    case False
    then show ?thesis by (subst backtrack.simps) auto
  qed
qed

lemma backtrack_ge: "dotdot \<le> w \<Longrightarrow> dotdot \<le> backtrack out dotdot w"
proof (induction out dotdot w rule: backtrack.induct)
  case (1 out dotdot w)
  show ?case
  proof (cases "dotdot < w \<and> out ! w \<noteq> Separator")
    case True
    then have "dotdot \<le> w - 1" by auto
    with 1 True have "dotdot \<le> backtrack out dotdot (w - 1)" by simp
    with True show ?thesis by (subst backtrack.simps) simp
  next
    case False
    with 1 show ?thesis by (subst backtrack.simps) auto
  qed
qed

lemma clean_loop_rooted:
  "0 < dotdot \<Longrightarrow> dotdot \<le> length out \<Longrightarrow> rooted \<Longrightarrow> hd out = Separator \<Longrightarrow>
   clean_loop rooted out dotdot path \<noteq> [] \<and> hd (clean_loop rooted out dotdot path) = Separator"
proof (induction rooted out dotdot path rule: clean_loop.induct)
  case (1 rooted out dotdot)
  then show ?case by auto
next
  case (2 rooted out dotdot c path)
  from "2.prems" have ne: "out \<noteq> []" by auto
  show ?case
  proof (cases "c = Separator")
    case True
    with 2 show ?thesis by simp
  next
    case sep: False
    show ?thesis
    proof (cases "c = CHR ''.'' \<and> (path = [] \<or> hd path = Separator)")
      case True
      with sep 2 show ?thesis by simp
    next
      case dot: False
      show ?thesis
      proof (cases "c = CHR ''.'' \<and> hd path = CHR ''.''
              \<and> (tl path = [] \<or> hd (tl path) = Separator)")
        case True
        show ?thesis
        proof (cases "dotdot < length out")
          case lt: True
          let ?w = "backtrack out dotdot (length out - 1)"
          from lt have ge: "dotdot \<le> ?w" by (intro backtrack_ge) simp
          have le: "?w \<le> length out - 1" by (rule backtrack_le)
          from ge "2.prems"(1) have pos: "0 < ?w" by simp
          from le ne have len: "length (take ?w out) = ?w" by simp
          from pos ne have hd: "hd (take ?w out) = hd out" by (cases out; cases ?w) auto
          from sep dot True lt "2.IH"(3) "2.prems" ge len hd show ?thesis by simp
        next
          case False
          with sep dot True 2 show ?thesis by simp
        qed
      next
        case False
        with sep dot "2.IH"(6) "2.prems" ne show ?thesis
          by (cases out) (auto simp: Let_def)
      qed
    qed
  qed
qed

lemma Clean_rooted: "IsAbs path \<Longrightarrow> IsAbs (Clean path)"
  using clean_loop_rooted[of 1 "[Separator]" True "tl path"]
  by (auto simp: IsAbs_def Clean_def Let_def)

lemma Abs_IsAbs:
  assumes "Abs sys p = Inr k" and "\<forall>wd. Getwd sys = Inr wd \<longrightarrow> IsAbs wd"
  shows "IsAbs k"
proof (cases "IsAbs p")
  case True
  with assms(1) show ?thesis by (auto simp: Abs_def Clean_rooted)
next
  case False
  with assms obtain wd where wd: "Getwd sys = Inr wd" "IsAbs wd" and k: "k = Join [wd, p]"
    by (auto simp: Abs_def split: sum.splits)
  from wd(2) have "IsAbs (wd @ [Separator] @ p)" by (auto simp: IsAbs_def)
  then have "IsAbs (Clean (wd @ [Separator] @ p))" by (rule Clean_rooted)
  with wd(2) k show ?thesis by (auto simp: IsAbs_def)
qed

lemma loaded_keys_absolute:
  assumes "dec b = Inr m" and "UnmarshalJSON (golib sys dec) b e = (None, e')"
    and "\<forall>wd. Getwd sys = Inr wd \<longrightarrow> IsAbs wd"
  shows "\<forall>k\<in>set (keys e'). IsAbs k"
proof -
  have d: "json_Unmarshal (golib sys dec) b = Inr m" using assms(1) by (simp add: golib_def)
  with assms(2) obtain x where x: "load_loop (golib sys dec) m (keys m) [] = (None, x)"
    and e': "e' = Some x"
    by (auto simp: UnmarshalJSON_def split: prod.splits)
  from load_loop_success_keys[OF x]
  have "set (keys e') = {a. \<exists>k\<in>set (keys m). Abs sys k = Inr a}"
    by (simp add: e' keys_def golib_def)
  with assms(3) show ?thesis by (auto dest: Abs_IsAbs)
qed

subsection \<open>A working directory with a bracket in its name\<close>

text \<open>
  C6 fails on the code.  In a process whose working directory is \<^verbatim>\<open>/[\<close>, the relative
  pattern \<^verbatim>\<open>a\<close> passes the glob check of the load (it is the raw pattern that is
  checked), the load succeeds and stores the resolved pattern \<^verbatim>\<open>/[/a\<close>, which the matcher
  rejects: \<^verbatim>\<open>Excluded\<close> reaches its panic.
\<close>

theorem Excluded_panics_after_successful_load:
  "snd (Glob (process (Inr ''/['')) ''a'') = None
   \<and> UnmarshalJSON (golib (process (Inr ''/['')) Unmarshal) ''{\"a\": \"r\"}'' None
       = (None, Some [(''/[/a'', ''r'')])
   \<and> Excluded (golib (process (Inr ''/['')) Unmarshal) (Some [(''/[/a'', ''r'')]) ''/[/a''
       = Panic ''Uncaught bad pattern''"
  by (simp add: go_defs src_defs json_defs)

text \<open>
  C8 fails on the code at the same input: after the successful load the key \<^verbatim>\<open>/[/a\<close> is
  absolute, but it is not a valid glob pattern.
\<close>

theorem loaded_key_is_not_a_valid_pattern:
  "UnmarshalJSON (golib (process (Inr ''/['')) Unmarshal) ''{\"a\": \"r\"}'' None
       = (None, Some [(''/[/a'', ''r'')])
   \<and> IsAbs ''/[/a''
   \<and> Match ''/[/a'' [] = Inl ''syntax error in pattern''"
  by (simp add: go_defs src_defs json_defs)

end
